theory Spec2Isabelle
  imports Main
begin

section \<open>The scikit-learn predictor: python/sklearnserver/sklearnserver/model.py\<close>

subsection \<open>Exceptions\<close>

text \<open>
  An exception object raised by code outside \<^verbatim>\<open>model.py\<close> (the storage
  layer, \<^verbatim>\<open>os\<close>, \<^verbatim>\<open>joblib\<close>, the fitted estimator, the array it
  returns). The file observes such an object in two ways only: the clause
  \<^verbatim>\<open>except Exception as e\<close> tests whether it is an instance of
  \<^verbatim>\<open>Exception\<close> (\<^verbatim>\<open>KeyboardInterrupt\<close>, \<^verbatim>\<open>SystemExit\<close> and
  \<^verbatim>\<open>GeneratorExit\<close> derive from \<^verbatim>\<open>BaseException\<close> alone and are not),
  and \<^verbatim>\<open>str(e)\<close> reads its description.
\<close>

datatype foreign = Foreign (is_Exception: bool) (str: string)

text \<open>
  What a caller of the modelled operations can see raised. The first four are constructed
  by \<^verbatim>\<open>model.py\<close> itself or by the dictionary lookup in it; \<open>Propagated\<close> is an
  exception of a callee that passes through unchanged; the last two belong to the
  batching engine of the second part. \<open>RuntimeError\<close> is the exception that
  \<^verbatim>\<open>load\<close> constructs for more than one model file; it carries the fixed text of the
  message and the list \<^verbatim>\<open>model_files\<close> that the f-string interpolates. A constructor
  stands for the exception objects built at one place of the code, not for a class with
  its subclasses: whether \<^verbatim>\<open>kserve.errors.InferenceError\<close> derives from Python's
  \<^verbatim>\<open>RuntimeError\<close> is not visible in the file and plays no part here.
\<close>

datatype error =
    ModelMissingError string
  | RuntimeError string "string list"
  | InferenceError string
  | KeyError string
  | Propagated foreign
  | EngineClosed
  | BatchResultMismatch

subsection \<open>The estimator and the model object\<close>

text \<open>
  The object returned by \<^verbatim>\<open>predict\<close> or \<^verbatim>\<open>predict_proba\<close> is used only
  through \<^verbatim>\<open>.tolist()\<close>, so it is represented by what that call does: it raises, or
  it returns a value.
\<close>

type_synonym 'v ndarray = "foreign + 'v"

text \<open>
  The object behind \<^verbatim>\<open>self._model\<close>. \<open>predict_proba_m\<close> is \<open>None\<close> when
  \<^verbatim>\<open>hasattr(self._model, "predict_proba")\<close> is false.
\<close>

record 'v estimator =
  predict_m :: "'v \<Rightarrow> foreign + 'v ndarray"
  predict_proba_m :: "('v \<Rightarrow> foreign + 'v ndarray) option"

text \<open>
  The attributes of \<^verbatim>\<open>SKLearnModel\<close>; \<open>model\<close> is \<^verbatim>\<open>_model\<close>, \<open>None\<close>
  as long as the attribute has not been assigned.
\<close>

record 'v SKLearnModel =
  name :: string
  model_dir :: string
  ready :: bool
  model :: "'v estimator option"

definition SKLearnModel_init :: "string \<Rightarrow> string \<Rightarrow> 'v SKLearnModel" where
  "SKLearnModel_init n d = \<lparr>name = n, model_dir = d, ready = False, model = None\<rparr>"

subsection \<open>Strings and paths\<close>

definition MODEL_EXTENSIONS :: "string list" where
  "MODEL_EXTENSIONS = [''.joblib'', ''.pkl'', ''.pickle'']"

definition ENV_PREDICT_PROBA :: string where
  "ENV_PREDICT_PROBA = ''PREDICT_PROBA''"

definition endswith :: "string \<Rightarrow> string \<Rightarrow> bool" where
  "endswith s suf \<longleftrightarrow> length suf \<le> length s \<and> drop (length s - length suf) s = suf"

text \<open>\<^verbatim>\<open>file.endswith(MODEL_EXTENSIONS)\<close> with a tuple: some member is a suffix.\<close>

definition endswith_any :: "string \<Rightarrow> string list \<Rightarrow> bool" where
  "endswith_any s sufs = list_ex (endswith s) sufs"

text \<open>
  \<^verbatim>\<open>str.lower()\<close> on the ASCII letters. Python also lowers letters outside ASCII, none
  of which becomes one of \<^verbatim>\<open>t r u e\<close>, so the comparison with \<^verbatim>\<open>"true"\<close> is
  the same.
\<close>

definition lower_char :: "char \<Rightarrow> char" where
  "lower_char c =
     (case map_of (zip ''ABCDEFGHIJKLMNOPQRSTUVWXYZ'' ''abcdefghijklmnopqrstuvwxyz'') c of
        None \<Rightarrow> c
      | Some d \<Rightarrow> d)"

definition lower :: "string \<Rightarrow> string" where
  "lower s = map lower_char s"

text \<open>
  \<^verbatim>\<open>os.path.join(a, b)\<close> of \<^verbatim>\<open>posixpath\<close> for two components: an absolute
  \<open>b\<close> replaces \<open>a\<close>, otherwise one separator stands between them.
\<close>

definition os_path_join :: "string \<Rightarrow> string \<Rightarrow> string" where
  "os_path_join a b =
     (if take 1 b = ''/'' then b
      else if a = [] \<or> endswith a ''/'' then a @ b
      else a @ ''/'' @ b)"

text \<open>
  \<^verbatim>\<open>pathlib\<close> on POSIX. A \<^verbatim>\<open>Path\<close> object is represented by its string
  \<^verbatim>\<open>str(path)\<close>, which is also what \<^verbatim>\<open>os.fspath\<close> hands to \<^verbatim>\<open>os.listdir\<close>,
  \<^verbatim>\<open>os.path.join\<close> and \<^verbatim>\<open>joblib.load\<close>. Constructing a path splits off the root
  (one slash, or two when there are exactly two), splits the rest at the slashes and drops
  the empty components and the components \<^verbatim>\<open>.\<close>; a path with no root and no
  component prints as \<^verbatim>\<open>.\<close>.
\<close>

fun split_sep :: "string \<Rightarrow> string list" where
  "split_sep [] = [[]]"
| "split_sep (c # cs) =
     (if c = CHR ''/'' then [] # split_sep cs
      else (case split_sep cs of [] \<Rightarrow> [[c]] | x # xs \<Rightarrow> (c # x) # xs))"

fun join_sep :: "string list \<Rightarrow> string" where
  "join_sep [] = []"
| "join_sep [x] = x"
| "join_sep (x # y # ys) = x @ ''/'' @ join_sep (y # ys)"

definition splitroot :: "string \<Rightarrow> string \<times> string" where
  "splitroot p =
     (if take 1 p \<noteq> ''/'' then ([], p)
      else if take 1 (drop 1 p) \<noteq> ''/'' \<or> take 1 (drop 2 p) = ''/'' then (''/'', drop 1 p)
      else (take 2 p, drop 2 p))"

text \<open>\<^verbatim>\<open>str(pathlib.Path(p))\<close>.\<close>

definition Path_str :: "string \<Rightarrow> string" where
  "Path_str p =
     (let (root, rel) = splitroot p;
          tail = filter (\<lambda>x. x \<noteq> [] \<and> x \<noteq> ''.'') (split_sep rel)
      in if root = [] \<and> tail = [] then ''.'' else root @ join_sep tail)"

text \<open>
  \<^verbatim>\<open>path / key\<close>: the path constructed from the two segments, which are joined as
  \<^verbatim>\<open>os.path.join\<close> joins them and then parsed. So \<^verbatim>\<open>Path(".") / "a.pkl"\<close> is
  \<^verbatim>\<open>a.pkl\<close>, where \<^verbatim>\<open>os.path.join(Path("."), "a.pkl")\<close> is \<^verbatim>\<open>./a.pkl\<close>.
\<close>

definition Path_truediv :: "string \<Rightarrow> string \<Rightarrow> string" where
  "Path_truediv path key = Path_str (os_path_join path key)"

text \<open>\<^verbatim>\<open>os.environ.get(key, default)\<close>.\<close>

definition environ_get :: "(string \<rightharpoonup> string) \<Rightarrow> string \<Rightarrow> string \<Rightarrow> string" where
  "environ_get environ key dflt = (case environ key of None \<Rightarrow> dflt | Some v \<Rightarrow> v)"

subsection \<open>The world outside: storage, file system, joblib\<close>

text \<open>
  \<open>Storage_download\<close> is \<^verbatim>\<open>Storage.download\<close>, which returns the local directory as
  a string; \<open>os_listdir\<close> and \<open>os_path_isfile\<close> read the file system after the
  download; \<open>joblib_load\<close> deserialises the file at a path. Each call that can raise
  returns a sum.
\<close>

record 'v world =
  Storage_download :: "string \<Rightarrow> foreign + string"
  os_listdir :: "string \<Rightarrow> foreign + string list"
  os_path_isfile :: "string \<Rightarrow> bool"
  joblib_load :: "string \<Rightarrow> foreign + 'v estimator"

subsection \<open>\<^verbatim>\<open>SKLearnModel.load\<close>\<close>

text \<open>
  The loop of lines 37 to 40, with \<^verbatim>\<open>model_files\<close> as accumulator: the test reads
  \<^verbatim>\<open>os.path.join(model_path, file)\<close>, the list receives \<^verbatim>\<open>model_path / file\<close>.
\<close>

primrec collect_model_files ::
  "'v world \<Rightarrow> string \<Rightarrow> string list \<Rightarrow> string list \<Rightarrow> string list" where
  "collect_model_files w model_path [] model_files = model_files"
| "collect_model_files w model_path (file # rest) model_files =
     (let file_path = os_path_join model_path file
      in collect_model_files w model_path rest
           (if os_path_isfile w file_path \<and> endswith_any file MODEL_EXTENSIONS
            then model_files @ [Path_truediv model_path file]
            else model_files))"

text \<open>
  The result is the raised exception or the returned value, together with the object after
  the call: an exception leaves \<^verbatim>\<open>self\<close> as it was when it was raised.
\<close>

definition load :: "'v world \<Rightarrow> 'v SKLearnModel \<Rightarrow> (error + bool) \<times> 'v SKLearnModel" where
  "load w self =
     (case Storage_download w (model_dir self) of
        Inl e \<Rightarrow> (Inl (Propagated e), self)
      | Inr downloaded \<Rightarrow>
          (let model_path = Path_str downloaded
           in case os_listdir w model_path of
                Inl e \<Rightarrow> (Inl (Propagated e), self)
              | Inr listing \<Rightarrow>
                  (let model_files = collect_model_files w model_path listing []
                   in if length model_files = 0 then (Inl (ModelMissingError model_path), self)
                      else if length model_files > 1 then
                        (Inl (RuntimeError
                           ''More than one model file is detected, Only one is allowed within model_dir: ''
                           model_files), self)
                      else
                        (case joblib_load w (model_files ! 0) of
                           Inl e \<Rightarrow> (Inl (Propagated e), self)
                         | Inr m \<Rightarrow>
                             (let self1 = self\<lparr>model := Some m\<rparr>;
                                  self2 = self1\<lparr>ready := True\<rparr>
                              in (Inr (ready self2), self2))))))"

subsection \<open>\<^verbatim>\<open>SKLearnModel.predict\<close>\<close>

text \<open>The calls made on \<^verbatim>\<open>self._model\<close>, in order, with their argument.\<close>

datatype 'v call = Predict 'v | PredictProba 'v

text \<open>
  Reading \<^verbatim>\<open>self._model\<close> before \<^verbatim>\<open>load\<close> has assigned it raises
  \<^verbatim>\<open>AttributeError\<close>, an \<^verbatim>\<open>Exception\<close>.
\<close>

definition AttributeError_model :: foreign where
  "AttributeError_model =
     Foreign True ([CHR 0x27] @ ''SKLearnModel' object has no attribute '_model'' @ [CHR 0x27])"

text \<open>
  \<^verbatim>\<open>result = <call>.tolist(); return {"predictions": result}\<close>: the first exception
  raised ends the block.
\<close>

definition tolist_and_return ::
  "foreign + 'v ndarray \<Rightarrow> foreign + (string \<rightharpoonup> 'v)" where
  "tolist_and_return r =
     (case r of
        Inl e \<Rightarrow> Inl e
      | Inr array \<Rightarrow>
          (case array of
             Inl e \<Rightarrow> Inl e
           | Inr result \<Rightarrow> Inr [''predictions'' \<mapsto> result]))"

text \<open>
  The body of the \<^verbatim>\<open>try\<close> block, lines 53 to 58. The condition
  \<^verbatim>\<open>os.environ.get(...).lower() == "true" and hasattr(self._model, "predict_proba")\<close>
  selects \<^verbatim>\<open>predict_proba\<close>; otherwise \<^verbatim>\<open>predict\<close> is called.
\<close>

definition try_body ::
  "(string \<rightharpoonup> string) \<Rightarrow> 'v SKLearnModel \<Rightarrow> 'v \<Rightarrow> 'v call list \<times> (foreign + (string \<rightharpoonup> 'v))" where
  "try_body environ self instances =
     (case model self of
        None \<Rightarrow> ([], Inl AttributeError_model)
      | Some m \<Rightarrow>
          (case (if lower (environ_get environ ENV_PREDICT_PROBA ''false'') = ''true''
                 then predict_proba_m m else None) of
             Some predict_proba \<Rightarrow>
               ([PredictProba instances], tolist_and_return (predict_proba instances))
           | None \<Rightarrow>
               ([Predict instances], tolist_and_return (predict_m m instances))))"

text \<open>
  \<^verbatim>\<open>except Exception as e: raise InferenceError(str(e))\<close>; an exception that is not an
  instance of \<^verbatim>\<open>Exception\<close> is not caught.
\<close>

definition except_Exception :: "foreign + 'a \<Rightarrow> error + 'a" where
  "except_Exception r =
     (case r of
        Inl e \<Rightarrow> if is_Exception e then Inl (InferenceError (str e)) else Inl (Propagated e)
      | Inr v \<Rightarrow> Inr v)"

text \<open>
  \<^verbatim>\<open>instances = payload["instances"]\<close> comes first and outside the \<^verbatim>\<open>try\<close>.
  The function returns the calls made on the estimator and the outcome.
\<close>

definition predict ::
  "(string \<rightharpoonup> string) \<Rightarrow> 'v SKLearnModel \<Rightarrow> (string \<rightharpoonup> 'v) \<Rightarrow>
     'v call list \<times> (error + (string \<rightharpoonup> 'v))" where
  "predict environ self payload =
     (case payload ''instances'' of
        None \<Rightarrow> ([], Inl (KeyError ''instances''))
      | Some instances \<Rightarrow>
          (let (calls, r) = try_body environ self instances
           in (calls, except_Exception r)))"

subsection \<open>Reference formulations used in the statements\<close>

text \<open>
  The entries of a listing that are files (\<^verbatim>\<open>os.path.isfile\<close>) and whose name ends in
  \<^verbatim>\<open>.joblib\<close>, \<^verbatim>\<open>.pkl\<close> or \<^verbatim>\<open>.pickle\<close>, written as a filter: the reading of
  \<open>collect_model_files\<close> that the statements about \<open>load\<close> use.
\<close>

definition model_file_names :: "'v world \<Rightarrow> string \<Rightarrow> string list \<Rightarrow> string list" where
  "model_file_names w model_path listing =
     filter (\<lambda>file. os_path_isfile w (os_path_join model_path file) \<and>
                    (endswith file ''.joblib'' \<or> endswith file ''.pkl'' \<or> endswith file ''.pickle''))
       listing"

text \<open>
  A string that equals \<^verbatim>\<open>true\<close> when case is ignored: four characters, each in either
  case.
\<close>

definition is_true_ignoring_case :: "string \<Rightarrow> bool" where
  "is_true_ignoring_case v =
     (case v of
        [a, b, c, d] \<Rightarrow>
          (a = CHR ''t'' \<or> a = CHR ''T'') \<and> (b = CHR ''r'' \<or> b = CHR ''R'') \<and>
          (c = CHR ''u'' \<or> c = CHR ''U'') \<and> (d = CHR ''e'' \<or> d = CHR ''E'')
      | _ \<Rightarrow> False)"

text \<open>The variable \<^verbatim>\<open>PREDICT_PROBA\<close> is set, to such a string.\<close>

definition PREDICT_PROBA_enabled :: "(string \<rightharpoonup> string) \<Rightarrow> bool" where
  "PREDICT_PROBA_enabled environ =
     (case environ ''PREDICT_PROBA'' of None \<Rightarrow> False | Some v \<Rightarrow> is_true_ignoring_case v)"

text \<open>
  The method of the estimator that a request is answered with: \<^verbatim>\<open>predict_proba\<close> when
  the estimator has it and the variable asks for it, \<^verbatim>\<open>predict\<close> otherwise.
\<close>

definition selected_method ::
  "(string \<rightharpoonup> string) \<Rightarrow> 'v estimator \<Rightarrow> 'v \<Rightarrow> foreign + 'v ndarray" where
  "selected_method environ m =
     (case predict_proba_m m of
        Some predict_proba \<Rightarrow>
          if lower (environ_get environ ENV_PREDICT_PROBA ''false'') = ''true''
          then predict_proba else predict_m m
      | None \<Rightarrow> predict_m m)"

text \<open>
  Reading a key of the dictionary that \<open>predict\<close> returned, as \<^verbatim>\<open>response.get(key)\<close>
  does; the raised error when there is no dictionary.
\<close>

definition response_get ::
  "'v call list \<times> (error + (string \<rightharpoonup> 'v)) \<Rightarrow> string \<Rightarrow> error + 'v option" where
  "response_get r key = (case snd r of Inl e \<Rightarrow> Inl e | Inr response \<Rightarrow> Inr (response key))"

text \<open>
  The assumption that the specification makes about the predictor, that result order matches
  input order: whenever a method of the estimator answers a list of instances with a list of
  results, there are as many results as instances and the result at each position answers
  the instance at that position. What it means for a result to answer an instance is left
  to the relation \<open>answers\<close>.
\<close>

definition keeps_order ::
  "('a \<Rightarrow> 'a \<Rightarrow> bool) \<Rightarrow> ('a list \<Rightarrow> foreign + 'a list ndarray) \<Rightarrow> bool" where
  "keeps_order answers method \<longleftrightarrow>
     (\<forall>xs rs. method xs = Inr (Inr rs) \<longrightarrow>
        length rs = length xs \<and> (\<forall>i < length xs. answers (xs ! i) (rs ! i)))"

definition estimator_keeps_order :: "('a \<Rightarrow> 'a \<Rightarrow> bool) \<Rightarrow> 'a list estimator \<Rightarrow> bool" where
  "estimator_keeps_order answers m \<longleftrightarrow>
     keeps_order answers (predict_m m) \<and>
     (case predict_proba_m m of
        None \<Rightarrow> True
      | Some predict_proba \<Rightarrow> keeps_order answers predict_proba)"

subsection \<open>Concrete worlds, estimators and payloads\<close>

definition healthy_estimator :: "nat list estimator" where
  "healthy_estimator =
     \<lparr>predict_m = (\<lambda>xs. Inr (Inr (map (\<lambda>x. x mod 3) xs))),
      predict_proba_m = Some (\<lambda>xs. Inr (Inr (map (\<lambda>x. x div 3) xs)))\<rparr>"

definition failing_estimator :: "nat list estimator" where
  "failing_estimator =
     \<lparr>predict_m = (\<lambda>xs. Inl (Foreign True ''Expected 2D array, got 1D array instead'')),
      predict_proba_m = None\<rparr>"

text \<open>An estimator whose call is ended by an exception outside \<^verbatim>\<open>Exception\<close>.\<close>

definition interrupted_estimator :: "nat list estimator" where
  "interrupted_estimator =
     \<lparr>predict_m = (\<lambda>xs. Inl (Foreign False ''interrupted'')),
      predict_proba_m = None\<rparr>"

text \<open>An estimator whose result is a plain list, which has no \<^verbatim>\<open>tolist\<close>.\<close>

definition listless_estimator :: "nat list estimator" where
  "listless_estimator =
     \<lparr>predict_m = (\<lambda>xs. Inr (Inl (Foreign True ''object has no attribute tolist''))),
      predict_proba_m = None\<rparr>"

text \<open>What the healthy estimator answers an instance with, by either method.\<close>

definition iris_answers :: "nat \<Rightarrow> nat \<Rightarrow> bool" where
  "iris_answers x r \<longleftrightarrow> r = x mod 3 \<or> r = x div 3"

definition loaded_with :: "'v estimator \<Rightarrow> 'v SKLearnModel" where
  "loaded_with m = \<lparr>name = ''sklearn'', model_dir = ''/mnt/models'', ready = True, model = Some m\<rparr>"

text \<open>
  A download directory given with a doubled and a trailing slash, holding one model file, a
  text file and a directory named like a model.
\<close>

definition healthy_world :: "nat list world" where
  "healthy_world =
     \<lparr>Storage_download = (\<lambda>uri. Inr ''/mnt//models/''),
      os_listdir = (\<lambda>p. if p = ''/mnt/models''
                          then Inr [''readme.txt'', ''model.joblib'', ''cache.pkl'']
                          else Inl (Foreign True ''No such file or directory'')),
      os_path_isfile = (\<lambda>p. p \<noteq> ''/mnt/models/cache.pkl''),
      joblib_load = (\<lambda>p. if p = ''/mnt/models/model.joblib'' then Inr healthy_estimator
                          else Inl (Foreign True ''No such file''))\<rparr>"

text \<open>The current directory as download directory, with two model files.\<close>

definition relative_world :: "nat list world" where
  "relative_world =
     \<lparr>Storage_download = (\<lambda>uri. Inr ''.''),
      os_listdir = (\<lambda>p. Inr [''a.pkl'', ''b.pkl'']),
      os_path_isfile = (\<lambda>p. p = ''./a.pkl'' \<or> p = ''./b.pkl''),
      joblib_load = (\<lambda>p. Inr healthy_estimator)\<rparr>"

definition empty_world :: "nat list world" where
  "empty_world =
     \<lparr>Storage_download = (\<lambda>uri. Inr ''/mnt/models''),
      os_listdir = (\<lambda>p. Inr [''readme.txt'']),
      os_path_isfile = (\<lambda>p. True),
      joblib_load = (\<lambda>p. Inr healthy_estimator)\<rparr>"

text \<open>A directory with exactly one model file, which \<^verbatim>\<open>joblib.load\<close> cannot read.\<close>

definition corrupt_world :: "nat list world" where
  "corrupt_world =
     \<lparr>Storage_download = (\<lambda>uri. Inr ''/mnt/models''),
      os_listdir = (\<lambda>p. Inr [''model.pkl'']),
      os_path_isfile = (\<lambda>p. True),
      joblib_load = (\<lambda>p. Inl (Foreign True ''invalid load key''))\<rparr>"

definition iris_payload :: "string \<rightharpoonup> nat list" where
  "iris_payload = [''instances'' \<mapsto> [5, 7, 9]]"

definition no_instances_payload :: "string \<rightharpoonup> nat list" where
  "no_instances_payload = [''inputs'' \<mapsto> [5, 7, 9]]"

section \<open>The batching engine in front of the predictor\<close>

text \<open>
  The batcher that groups requests before they reach the predictor is a component of this
  repository whose code is not among the files at hand; only its end-to-end test
  \<^verbatim>\<open>test/e2e/batcher/test_raw_batcher.py\<close> is. Every definition of this section is
  therefore written from the specification, sentence by sentence. Concurrent producers are
  serialised, as the specification's single accumulation point does: a run of the engine is
  a list of events, handled one at a time.
\<close>

text \<open>
  Modelled from the spec: the lifecycle states of a Batch of the missing batching engine,
  \<^verbatim>\<open>{OPEN, CLOSING, DISPATCHED, COMPLETED, FAILED}\<close>.
\<close>

datatype batch_state = OPEN | CLOSING | DISPATCHED | COMPLETED | FAILED

text \<open>
  Modelled from the spec: the Item of the missing batching engine, a payload, a one-shot
  result sink and the time of arrival. A sink is identified by a number, fresh for every
  Item.
\<close>

record 'p item =
  item_payload :: 'p
  resultSink :: nat
  enqueuedAt :: nat

text \<open>
  Modelled from the spec: the Batch of the missing batching engine, with its identifier
  generated at open time, its items in arrival order, its state and its deadline (open time
  plus \<^verbatim>\<open>max_latency\<close>).
\<close>

record 'p batch =
  batch_id :: nat
  items :: "'p item list"
  state :: batch_state
  deadline :: nat

text \<open>
  Modelled from the spec: what the missing Dispatcher delivers to a result sink, a result or
  an error, tagged with the identifier of the batch.
\<close>

record 'r delivery =
  sink :: nat
  batchId :: nat
  result :: "error + 'r"

text \<open>
  Modelled from the spec: one instance of the missing batching engine. The two
  configuration values, the clock, the shutdown flag, the slot of the current open batch and
  the counter that generates batch identifiers are the state the specification names; the
  counter of sinks stands for the allocation of a fresh one-shot channel per Item; the
  closed batches, the calls made to the predictor and the deliveries made to sinks are
  logged in order, so that statements about a whole run can be written.
\<close>

record ('p, 'r) engine =
  max_batch_size :: nat
  max_latency :: nat
  now :: nat
  shutting_down :: bool
  current :: "'p batch option"
  next_batch_id :: nat
  next_sink :: nat
  history :: "'p batch list"
  invocations :: "'p list list"
  delivered :: "'r delivery list"

text \<open>
  Modelled from the spec: construction of the missing engine from its configuration surface,
  \<^verbatim>\<open>max_batch_size\<close> and \<^verbatim>\<open>max_latency\<close>; no batch is open yet.
\<close>

definition new_engine :: "nat \<Rightarrow> nat \<Rightarrow> ('p, 'r) engine" where
  "new_engine mbs lat =
     \<lparr>max_batch_size = mbs, max_latency = lat, now = 0, shutting_down = False,
      current = None, next_batch_id = 0, next_sink = 0,
      history = [], invocations = [], delivered = []\<rparr>"

text \<open>
  Modelled from the spec: opening a batch in the missing Batcher Core. The identifier is
  generated at open time from a monotonic counter and the deadline timer is armed for
  \<^verbatim>\<open>max_latency\<close>.
\<close>

definition open_batch :: "('p, 'r) engine \<Rightarrow> ('p, 'r) engine" where
  "open_batch e =
     e\<lparr>current := Some \<lparr>batch_id = next_batch_id e, items = [], state = OPEN,
                         deadline = now e + max_latency e\<rparr>,
       next_batch_id := Suc (next_batch_id e)\<rparr>"

text \<open>
  Modelled from the spec: the missing Dispatcher failing a whole batch, every item with the
  same error, tagged with the batch's identifier.
\<close>

definition fail_all :: "'p batch \<Rightarrow> error \<Rightarrow> 'r delivery list" where
  "fail_all b err =
     map (\<lambda>it. \<lparr>sink = resultSink it, batchId = batch_id b, result = Inl err\<rparr>) (items b)"

text \<open>
  Modelled from the spec: \<^verbatim>\<open>dispatch(batch)\<close> of the missing Dispatcher. The predictor
  capability is called once with the payloads in order; it returns the description of its
  failure or the results. On success with as many results as items, result \<open>i\<close> goes to
  the sink of item \<open>i\<close>; on a different count every item fails with
  \<^verbatim>\<open>BatchResultMismatch\<close>; on failure every item fails with \<^verbatim>\<open>InferenceError\<close>
  carrying the description. There is no retry.
\<close>

definition dispatch ::
  "('p list \<Rightarrow> string + 'r list) \<Rightarrow> 'p batch \<Rightarrow> 'p batch \<times> 'r delivery list" where
  "dispatch predictor b =
     (case predictor (map item_payload (items b)) of
        Inl description \<Rightarrow> (b\<lparr>state := FAILED\<rparr>, fail_all b (InferenceError description))
      | Inr results \<Rightarrow>
          if length results = length (items b)
          then (b\<lparr>state := COMPLETED\<rparr>,
                map (\<lambda>(it, r). \<lparr>sink = resultSink it, batchId = batch_id b, result = Inr r\<rparr>)
                  (zip (items b) results))
          else (b\<lparr>state := FAILED\<rparr>, fail_all b BatchResultMismatch))"

text \<open>
  Modelled from the spec: closing the current batch in the missing Batcher Core. Closing is
  a single transition out of \<^verbatim>\<open>OPEN\<close> and does nothing on a batch that is not open;
  a new batch is made available before the closed one is handed to the Dispatcher; a batch
  without items is never dispatched.
\<close>

definition close_batch ::
  "('p list \<Rightarrow> string + 'r list) \<Rightarrow> ('p, 'r) engine \<Rightarrow> ('p, 'r) engine" where
  "close_batch predictor e =
     (case current e of
        None \<Rightarrow> e
      | Some b \<Rightarrow>
          if state b \<noteq> OPEN then e
          else
            (let closing = b\<lparr>state := CLOSING\<rparr>;
                 e1 = open_batch e
             in if items closing = [] then e1\<lparr>history := history e1 @ [closing]\<rparr>
                else
                  (let (finished, ds) = dispatch predictor (closing\<lparr>state := DISPATCHED\<rparr>)
                   in e1\<lparr>history := history e1 @ [finished],
                         invocations := invocations e1 @ [map item_payload (items closing)],
                         delivered := delivered e1 @ ds\<rparr>)))"

text \<open>
  Modelled from the spec: \<^verbatim>\<open>enqueue(item)\<close> of the missing Batcher Core. It fails with
  \<^verbatim>\<open>EngineClosed\<close> when the engine is shutting down; otherwise it opens a batch first
  if none is open, appends the item, returns the handle of its sink, and closes the batch in
  the same operation when the append makes its size \<^verbatim>\<open>max_batch_size\<close>. The payload
  is opaque here; that it is not empty is a constraint on the caller.
\<close>

definition enqueue ::
  "('p list \<Rightarrow> string + 'r list) \<Rightarrow> 'p \<Rightarrow> ('p, 'r) engine \<Rightarrow> (error + nat) \<times> ('p, 'r) engine" where
  "enqueue predictor p e =
     (if shutting_down e then (Inl EngineClosed, e)
      else
        (let e1 = (case current e of
                     None \<Rightarrow> open_batch e
                   | Some b \<Rightarrow> if state b = OPEN then e else open_batch e);
             it = \<lparr>item_payload = p, resultSink = next_sink e1, enqueuedAt = now e1\<rparr>;
             e2 = e1\<lparr>current := map_option (\<lambda>b. b\<lparr>items := items b @ [it]\<rparr>) (current e1),
                    next_sink := Suc (next_sink e1)\<rparr>
         in (Inr (resultSink it),
             if (case current e2 of
                   None \<Rightarrow> False
                 | Some b \<Rightarrow> length (items b) = max_batch_size e2)
             then close_batch predictor e2 else e2)))"

text \<open>
  Modelled from the spec: the deadline timer of batch \<open>bid\<close> firing in the missing Batcher
  Core. It closes that batch when it is still the open one and its deadline has been
  reached; a timer that lost the race against the size trigger finds another batch in the
  slot and does nothing.
\<close>

definition timer_fire ::
  "('p list \<Rightarrow> string + 'r list) \<Rightarrow> nat \<Rightarrow> ('p, 'r) engine \<Rightarrow> ('p, 'r) engine" where
  "timer_fire predictor bid e =
     (case current e of
        None \<Rightarrow> e
      | Some b \<Rightarrow>
          if batch_id b = bid \<and> state b = OPEN \<and> deadline b \<le> now e
          then close_batch predictor e else e)"

text \<open>
  Modelled from the spec: what can happen to the missing engine, in the serialised order of
  its accumulation point: a submission, the passing of time, a timer firing, the start of
  shutdown.
\<close>

datatype 'p event = Submit 'p | Elapse nat | TimerFire nat | Shutdown

text \<open>Modelled from the spec: the missing engine handling one event.\<close>

fun step ::
  "('p list \<Rightarrow> string + 'r list) \<Rightarrow> ('p, 'r) engine \<Rightarrow> 'p event \<Rightarrow> ('p, 'r) engine" where
  "step predictor e (Submit p) = snd (enqueue predictor p e)"
| "step predictor e (Elapse d) = e\<lparr>now := now e + d\<rparr>"
| "step predictor e (TimerFire bid) = timer_fire predictor bid e"
| "step predictor e Shutdown = e\<lparr>shutting_down := True\<rparr>"

text \<open>Modelled from the spec: a run of the missing engine, one event after the other.\<close>

definition run ::
  "('p list \<Rightarrow> string + 'r list) \<Rightarrow> ('p, 'r) engine \<Rightarrow> 'p event list \<Rightarrow> ('p, 'r) engine" where
  "run predictor e evs = foldl (step predictor) e evs"

text \<open>
  Modelled from the spec: the status that the missing Request Gateway reports for a
  delivery. The specification fixes that a success is reported as 200; 500 stands for any
  other status.
\<close>

definition response_code :: "'r delivery \<Rightarrow> nat" where
  "response_code d = (case result d of Inr r \<Rightarrow> 200 | Inl err \<Rightarrow> 500)"

text \<open>
  Modelled from the spec: the two fields of the missing Gateway's response that the
  end-to-end test reads, \<^verbatim>\<open>batchId\<close> and \<^verbatim>\<open>response_code\<close>.
\<close>

definition gateway_response :: "'r delivery \<Rightarrow> nat \<times> nat" where
  "gateway_response d = (batchId d, response_code d)"

subsection \<open>The assertions of the end-to-end test\<close>

text \<open>
  Lines 84 to 95 of \<^verbatim>\<open>test_raw_batcher.py\<close>: the batch identifiers and the response
  codes of all responses are collected, and the test asserts
  \<^verbatim>\<open>len(set(results)) == 1\<close> and \<^verbatim>\<open>set(response_codes) == {200}\<close>.
\<close>

definition test_batcher_raw_asserts :: "(nat \<times> nat) list \<Rightarrow> bool" where
  "test_batcher_raw_asserts future_res =
     (let results = map fst future_res;
          response_codes = map snd future_res
      in card (set results) = 1 \<and> set response_codes = {200})"

subsection \<open>Observations of an engine and of a run\<close>

text \<open>The sinks of the items of a batch, in order.\<close>

definition sinks_of :: "'p batch \<Rightarrow> nat list" where
  "sinks_of b = map resultSink (items b)"

text \<open>The sinks still waiting in the open batch.\<close>

definition pending :: "('p, 'r) engine \<Rightarrow> nat list" where
  "pending e = (case current e of None \<Rightarrow> [] | Some b \<Rightarrow> sinks_of b)"

definition current_batch_id :: "('p, 'r) engine \<Rightarrow> nat" where
  "current_batch_id e = (case current e of None \<Rightarrow> 0 | Some b \<Rightarrow> batch_id b)"

text \<open>The payloads submitted by a list of events, and the time that passes in it.\<close>

definition submissions :: "'p event list \<Rightarrow> 'p list" where
  "submissions evs = concat (map (\<lambda>ev. case ev of Submit p \<Rightarrow> [p] | _ \<Rightarrow> []) evs)"

definition elapsed :: "'p event list \<Rightarrow> nat" where
  "elapsed evs = sum_list (map (\<lambda>ev. case ev of Elapse d \<Rightarrow> d | _ \<Rightarrow> 0) evs)"

text \<open>
  The invariant of every reachable engine: batch identifiers are pairwise distinct and below
  the counter; the open batch is open and its deadline is at most \<^verbatim>\<open>max_latency\<close>
  away; the sinks handed out so far are exactly those of the closed batches followed by
  those of the open one, in order; the deliveries made are exactly those of the closed
  batches; the predictor was called once for each closed batch that has items.
\<close>

definition engine_inv :: "('p list \<Rightarrow> string + 'r list) \<Rightarrow> ('p, 'r) engine \<Rightarrow> bool" where
  "engine_inv predictor e \<longleftrightarrow>
     distinct (map batch_id (history e)) \<and>
     (\<forall>b \<in> set (history e). batch_id b < next_batch_id e) \<and>
     (\<forall>b. current e = Some b \<longrightarrow>
        batch_id b < next_batch_id e \<and> batch_id b \<notin> batch_id ` set (history e) \<and>
        state b = OPEN \<and> deadline b \<le> now e + max_latency e) \<and>
     concat (map sinks_of (history e)) @ pending e = [0..<next_sink e] \<and>
     delivered e = concat (map (\<lambda>b. snd (dispatch predictor b)) (history e)) \<and>
     invocations e =
       map (\<lambda>b. map item_payload (items b)) (filter (\<lambda>b. items b \<noteq> []) (history e))"

text \<open>
  Batches never exceed \<open>mbs\<close> items, and the open batch still has room for one.
\<close>

definition size_bounded :: "nat \<Rightarrow> ('p, 'r) engine \<Rightarrow> bool" where
  "size_bounded mbs e \<longleftrightarrow>
     max_batch_size e = mbs \<and>
     (\<forall>b \<in> set (history e). length (items b) \<le> mbs) \<and>
     (\<forall>b. current e = Some b \<longrightarrow> state b = OPEN \<and> length (items b) < mbs)"

text \<open>
  The two phases of a flood of submissions that starts at time \<open>ts\<close> on an engine that
  was idle until then, \<open>t\<close> later and before the first deadline: while fewer than
  \<open>mbs\<close> payloads \<open>ps\<close> have been submitted, nothing has been dispatched and all of
  them wait in batch 0; once the last one has arrived, batch 0 has been dispatched with the
  results \<open>rs\<close> and an empty batch is open.
\<close>

definition filling :: "nat \<Rightarrow> nat \<Rightarrow> nat \<Rightarrow> 'p list \<Rightarrow> nat \<Rightarrow> ('p, 'r) engine \<Rightarrow> bool" where
  "filling mbs lat ts ps t e \<longleftrightarrow>
     max_batch_size e = mbs \<and> max_latency e = lat \<and> now e = ts + t \<and> \<not> shutting_down e \<and>
     history e = [] \<and> invocations e = [] \<and> delivered e = [] \<and> next_sink e = length ps \<and>
     (if ps = [] then current e = None \<and> next_batch_id e = 0
      else next_batch_id e = 1 \<and>
           (\<exists>b. current e = Some b \<and> batch_id b = 0 \<and> state b = OPEN \<and>
                ts + lat \<le> deadline b \<and>
                map item_payload (items b) = ps \<and> sinks_of b = [0..<length ps]))"

definition flushed ::
  "nat \<Rightarrow> nat \<Rightarrow> nat \<Rightarrow> 'p list \<Rightarrow> 'r list \<Rightarrow> nat \<Rightarrow> ('p, 'r) engine \<Rightarrow> bool" where
  "flushed mbs lat ts ps rs t e \<longleftrightarrow>
     max_batch_size e = mbs \<and> max_latency e = lat \<and> now e = ts + t \<and>
     length (history e) = 1 \<and> invocations e = [ps] \<and>
     delivered e =
       map (\<lambda>(s, r). \<lparr>sink = s, batchId = 0, result = Inr r\<rparr>) (zip [0..<length ps] rs) \<and>
     (\<exists>b. current e = Some b \<and> items b = [] \<and> ts + lat \<le> deadline b)"

subsection \<open>Concrete predictors and runs\<close>

text \<open>A predictor that fails on every batch that contains the payload 7.\<close>

definition flaky_predictor :: "nat list \<Rightarrow> string + nat list" where
  "flaky_predictor ps = (if 7 \<in> set ps then Inl ''bad input'' else Inr (map Suc ps))"

text \<open>
  Batches of at most two items and a latency of 10: two submissions fill batch 0, a third
  waits in batch 1 until its timer fires.
\<close>

definition example_events :: "nat event list" where
  "example_events = [Submit 5, Submit 6, Submit 7, Elapse 10, TimerFire 1]"

definition example_engine :: "(nat, nat) engine" where
  "example_engine = run flaky_predictor (new_engine 2 10) example_events"

text \<open>
  Batches of at most three items: two submissions are flushed by the timer, the next three
  fill batch 1, which holds the payload 7 beside two others, and a last one is flushed by
  the timer again.
\<close>

definition atomic_events :: "nat event list" where
  "atomic_events =
     [Submit 5, Submit 6, Elapse 10, TimerFire 0, Submit 8, Submit 7, Submit 9,
      Submit 4, Elapse 10, TimerFire 2]"

definition atomic_engine :: "(nat, nat) engine" where
  "atomic_engine = run flaky_predictor (new_engine 3 10) atomic_events"

definition failed_batch :: "nat batch" where
  "failed_batch =
     \<lparr>batch_id = 1,
      items = [\<lparr>item_payload = 8, resultSink = 2, enqueuedAt = 10\<rparr>,
               \<lparr>item_payload = 7, resultSink = 3, enqueuedAt = 10\<rparr>,
               \<lparr>item_payload = 9, resultSink = 4, enqueuedAt = 10\<rparr>],
      state = FAILED, deadline = 20\<rparr>"

definition succ_predictor :: "nat list \<Rightarrow> string + nat list" where
  "succ_predictor ps = Inr (map Suc ps)"

text \<open>
  A minute without requests, then thirty-two submissions within 4100 milliseconds, with
  timers firing and time passing between and after them.
\<close>

definition idle_events :: "nat event list" where
  "idle_events = [Elapse 60000, TimerFire 0]"

definition flood_events :: "nat event list" where
  "flood_events =
     map Submit [1, 2, 3, 4, 5, 6, 7, 8, 9, 10, 11, 12, 13, 14, 15, 16] @
     [Elapse 100, TimerFire 0] @
     map Submit [17, 18, 19, 20, 21, 22, 23, 24, 25, 26, 27, 28, 29, 30, 31, 32] @
     [TimerFire 1, Elapse 4000]"

section \<open>Properties of the predictor\<close>

lemma collect_model_files_eq:
  "collect_model_files w p listing acc =
     acc @ map (Path_truediv p) (model_file_names w p listing)"
  by (induction listing arbitrary: acc)
     (simp_all add: model_file_names_def endswith_any_def MODEL_EXTENSIONS_def Let_def)

lemma load_cases:
  assumes "Storage_download w (model_dir self) = Inr downloaded"
      and "os_listdir w (Path_str downloaded) = Inr listing"
  shows "load w self =
     (case model_file_names w (Path_str downloaded) listing of
        [] \<Rightarrow> (Inl (ModelMissingError (Path_str downloaded)), self)
      | [file] \<Rightarrow>
          (case joblib_load w (Path_truediv (Path_str downloaded) file) of
             Inl e \<Rightarrow> (Inl (Propagated e), self)
           | Inr m \<Rightarrow> (Inr True, self\<lparr>model := Some m, ready := True\<rparr>))
      | file # file' # rest \<Rightarrow>
          (Inl (RuntimeError
             ''More than one model file is detected, Only one is allowed within model_dir: ''
             (map (Path_truediv (Path_str downloaded)) (file # file' # rest))), self))"
  using assms
  by (simp add: load_def collect_model_files_eq Let_def split: list.splits sum.splits)

lemma predict_errors:
  "snd (predict environ self payload) = Inl err \<Longrightarrow>
     err = KeyError ''instances'' \<or> (\<exists>s. err = InferenceError s) \<or>
     (\<exists>e. err = Propagated e \<and> \<not> is_Exception e)"
  by (auto simp add: predict_def except_Exception_def split: option.splits sum.splits prod.splits if_splits)

text \<open>
  Claim C3. Once the download directory has been made a path and listed, \<^verbatim>\<open>load\<close>
  returns \<^verbatim>\<open>True\<close> with \<^verbatim>\<open>ready\<close> set exactly when the directory holds one file
  with a model extension and \<^verbatim>\<open>joblib.load\<close> reads \<^verbatim>\<open>model_path / file\<close>; an
  exception of \<^verbatim>\<open>joblib.load\<close> passes through and leaves the object as it was; with
  no such file \<^verbatim>\<open>load\<close> raises \<^verbatim>\<open>ModelMissingError\<close> for the directory, with more
  than one it raises \<^verbatim>\<open>RuntimeError\<close> listing the paths \<^verbatim>\<open>model_path / file\<close>,
  in both cases leaving the object as it was; and \<^verbatim>\<open>predict\<close> raises neither
  \<^verbatim>\<open>ModelMissingError\<close> nor the error for more than one model file, so the two belong
  to start-up and not to a request.
\<close>

theorem load_succeeds_iff:
  assumes "Storage_download w (model_dir self) = Inr downloaded"
      and "model_path = Path_str downloaded"
      and "os_listdir w model_path = Inr listing"
  shows "((fst (load w self) = Inr True \<and> ready (snd (load w self))) \<longleftrightarrow>
            (\<exists>file m. model_file_names w model_path listing = [file] \<and>
                      joblib_load w (Path_truediv model_path file) = Inr m)) \<and>
         (\<forall>file e. model_file_names w model_path listing = [file] \<and>
                   joblib_load w (Path_truediv model_path file) = Inl e \<longrightarrow>
            load w self = (Inl (Propagated e), self)) \<and>
         (length (model_file_names w model_path listing) = 0 \<longrightarrow>
            load w self = (Inl (ModelMissingError model_path), self)) \<and>
         (length (model_file_names w model_path listing) > 1 \<longrightarrow>
            load w self =
              (Inl (RuntimeError
                 ''More than one model file is detected, Only one is allowed within model_dir: ''
                 (map (Path_truediv model_path) (model_file_names w model_path listing))),
               self)) \<and>
         (\<forall>environ payload p msg files.
            snd (predict environ self payload) \<noteq> Inl (ModelMissingError p) \<and>
            snd (predict environ self payload) \<noteq> Inl (RuntimeError msg files))"
proof -
  note lc = load_cases [OF assms(1) assms(3) [unfolded assms(2)], folded assms(2)]
  have a: "(fst (load w self) = Inr True \<and> ready (snd (load w self))) \<longleftrightarrow>
            (\<exists>file m. model_file_names w model_path listing = [file] \<and>
                      joblib_load w (Path_truediv model_path file) = Inr m)"
    unfolding lc by (auto split: list.splits sum.splits)
  have a': "\<forall>file e. model_file_names w model_path listing = [file] \<and>
                   joblib_load w (Path_truediv model_path file) = Inl e \<longrightarrow>
            load w self = (Inl (Propagated e), self)"
    unfolding lc by (auto split: list.splits sum.splits)
  have b: "length (model_file_names w model_path listing) = 0 \<longrightarrow>
            load w self = (Inl (ModelMissingError model_path), self)"
    unfolding lc by simp
  have c: "length (model_file_names w model_path listing) > 1 \<longrightarrow>
            load w self =
              (Inl (RuntimeError
                 ''More than one model file is detected, Only one is allowed within model_dir: ''
                 (map (Path_truediv model_path) (model_file_names w model_path listing))),
               self)"
    unfolding lc by (auto split: list.splits)
  have d: "\<forall>environ payload p msg files.
            snd (predict environ self payload) \<noteq> Inl (ModelMissingError p) \<and>
            snd (predict environ self payload) \<noteq> Inl (RuntimeError msg files)"
    using predict_errors by fastforce
  from a a' b c d show ?thesis by blast
qed

text \<open>
  A directory with exactly one model file that \<^verbatim>\<open>joblib.load\<close> rejects: the file count
  alone does not make \<^verbatim>\<open>load\<close> succeed.
\<close>

theorem load_one_file_not_sufficient:
  "os_listdir corrupt_world ''/mnt/models'' = Inr [''model.pkl''] \<and>
   length (model_file_names corrupt_world ''/mnt/models'' [''model.pkl'']) = 1 \<and>
   fst (load corrupt_world (SKLearnModel_init ''sklearn'' ''gs://bucket/model'')) =
     Inl (Propagated (Foreign True ''invalid load key'')) \<and>
   fst (load corrupt_world (SKLearnModel_init ''sklearn'' ''gs://bucket/model'')) \<noteq> Inr True \<and>
   \<not> ready (snd (load corrupt_world (SKLearnModel_init ''sklearn'' ''gs://bucket/model'')))"
  by (simp add: load_def corrupt_world_def SKLearnModel_init_def model_file_names_def endswith_def
      endswith_any_def MODEL_EXTENSIONS_def os_path_join_def Path_str_def Path_truediv_def
      splitroot_def)

lemma lower_char_t: "lower_char c = CHR ''t'' \<longleftrightarrow> c = CHR ''t'' \<or> c = CHR ''T''"
  by (auto simp add: lower_char_def)

lemma lower_char_r: "lower_char c = CHR ''r'' \<longleftrightarrow> c = CHR ''r'' \<or> c = CHR ''R''"
  by (auto simp add: lower_char_def)

lemma lower_char_u: "lower_char c = CHR ''u'' \<longleftrightarrow> c = CHR ''u'' \<or> c = CHR ''U''"
  by (auto simp add: lower_char_def)

lemma lower_char_e: "lower_char c = CHR ''e'' \<longleftrightarrow> c = CHR ''e'' \<or> c = CHR ''E''"
  by (auto simp add: lower_char_def)

lemma lower_eq_true: "lower v = ''true'' \<longleftrightarrow> is_true_ignoring_case v"
proof (cases v)
  case Nil
  then show ?thesis by (simp add: lower_def is_true_ignoring_case_def)
next
  case (Cons a v1)
  show ?thesis
  proof (cases v1)
    case Nil
    with Cons show ?thesis by (simp add: lower_def is_true_ignoring_case_def)
  next
    case (Cons b v2)
    note c2 = this
    show ?thesis
    proof (cases v2)
      case Nil
      with \<open>v = a # v1\<close> c2 show ?thesis by (simp add: lower_def is_true_ignoring_case_def)
    next
      case (Cons c v3)
      note c3 = this
      show ?thesis
      proof (cases v3)
        case Nil
        with \<open>v = a # v1\<close> c2 c3 show ?thesis by (simp add: lower_def is_true_ignoring_case_def)
      next
        case (Cons d v4)
        with \<open>v = a # v1\<close> c2 c3 show ?thesis
          by (cases v4)
             (simp_all add: lower_def is_true_ignoring_case_def
                lower_char_t lower_char_r lower_char_u lower_char_e)
      qed
    qed
  qed
qed

lemma env_condition:
  "lower (environ_get environ ENV_PREDICT_PROBA ''false'') = ''true'' \<longleftrightarrow>
     PREDICT_PROBA_enabled environ"
  by (simp add: lower_eq_true environ_get_def ENV_PREDICT_PROBA_def PREDICT_PROBA_enabled_def
        is_true_ignoring_case_def split: option.splits)

lemma predict_loaded:
  assumes "payload ''instances'' = Some instances" and "model self = Some m"
  shows "predict environ self payload =
     (case (if PREDICT_PROBA_enabled environ then predict_proba_m m else None) of
        Some predict_proba \<Rightarrow>
          ([PredictProba instances], except_Exception (tolist_and_return (predict_proba instances)))
      | None \<Rightarrow>
          ([Predict instances], except_Exception (tolist_and_return (predict_m m instances))))"
  using assms by (simp add: predict_def try_body_def env_condition split: option.splits)

text \<open>
  Claim C8. With a loaded estimator and a payload with instances: when \<^verbatim>\<open>PREDICT_PROBA\<close> is
  set to \<^verbatim>\<open>true\<close> in any mixture of cases and the estimator has
  \<^verbatim>\<open>predict_proba\<close>, the request is answered by one call of \<^verbatim>\<open>predict_proba\<close>
  on the instances and returns its output under \<^verbatim>\<open>predictions\<close>; in every other case
  (the variable unset, any other value, or no such attribute) it is answered by one call of
  \<^verbatim>\<open>predict\<close> and returns that output.
\<close>

theorem predict_proba_selection:
  assumes "payload ''instances'' = Some instances" and "model self = Some m"
  shows "(PREDICT_PROBA_enabled environ \<and> predict_proba_m m = Some predict_proba \<longrightarrow>
            predict environ self payload =
              ([PredictProba instances],
               except_Exception (tolist_and_return (predict_proba instances))) \<and>
            (\<forall>out. predict_proba instances = Inr (Inr out) \<longrightarrow>
               snd (predict environ self payload) = Inr [''predictions'' \<mapsto> out])) \<and>
         (\<not> (PREDICT_PROBA_enabled environ \<and> predict_proba_m m \<noteq> None) \<longrightarrow>
            predict environ self payload =
              ([Predict instances],
               except_Exception (tolist_and_return (predict_m m instances))) \<and>
            (\<forall>out. predict_m m instances = Inr (Inr out) \<longrightarrow>
               snd (predict environ self payload) = Inr [''predictions'' \<mapsto> out]))"
  using predict_loaded [of payload instances self m environ, OF assms]
  by (auto simp add: tolist_and_return_def except_Exception_def split: option.splits)

lemmas sk_eval = load_def predict_def try_body_def except_Exception_def tolist_and_return_def
  SKLearnModel_init_def model_file_names_def endswith_def endswith_any_def MODEL_EXTENSIONS_def
  os_path_join_def environ_get_def ENV_PREDICT_PROBA_def lower_def lower_char_def
  selected_method_def PREDICT_PROBA_enabled_def is_true_ignoring_case_def loaded_with_def
  Path_str_def Path_truediv_def splitroot_def

text \<open>
  The two joins differ on the current directory, and constructing a path normalises
  it.
\<close>

lemma Path_examples:
  "Path_str ''.'' = ''.''" "Path_str [] = ''.''" "Path_str ''./models//x/'' = ''models/x''"
  "Path_str ''//x'' = ''//x''" "Path_str ''///x'' = ''/x''"
  "Path_truediv ''.'' ''a.pkl'' = ''a.pkl''" "os_path_join ''.'' ''a.pkl'' = ''./a.pkl''"
  "Path_truediv ''/'' ''a.pkl'' = ''/a.pkl''" "Path_truediv ''models'' ''/abs'' = ''/abs''"
  by (simp_all add: Path_str_def Path_truediv_def splitroot_def os_path_join_def endswith_def)

text \<open>
  With the current directory as model directory, the files are tested as
  \<^verbatim>\<open>./a.pkl\<close> and \<^verbatim>\<open>./b.pkl\<close> and listed as \<^verbatim>\<open>a.pkl\<close> and \<^verbatim>\<open>b.pkl\<close>.
\<close>

lemma load_relative_dir:
  "load relative_world (SKLearnModel_init ''sklearn'' ''gs://bucket/model'') =
     (Inl (RuntimeError
        ''More than one model file is detected, Only one is allowed within model_dir: ''
        [''a.pkl'', ''b.pkl'']),
      SKLearnModel_init ''sklearn'' ''gs://bucket/model'')"
  by (simp add: relative_world_def sk_eval)

theorem load_succeeds_iff_witness:
  "Storage_download healthy_world (model_dir (SKLearnModel_init ''sklearn'' ''gs://bucket/model'')) =
     Inr ''/mnt//models/'' \<and>
   ''/mnt/models'' = Path_str ''/mnt//models/'' \<and>
   os_listdir healthy_world ''/mnt/models'' = Inr [''readme.txt'', ''model.joblib'', ''cache.pkl''] \<and>
   model_file_names healthy_world ''/mnt/models'' [''readme.txt'', ''model.joblib'', ''cache.pkl''] =
     [''model.joblib''] \<and>
   joblib_load healthy_world (Path_truediv ''/mnt/models'' ''model.joblib'') = Inr healthy_estimator \<and>
   fst (load healthy_world (SKLearnModel_init ''sklearn'' ''gs://bucket/model'')) = Inr True \<and>
   ready (snd (load healthy_world (SKLearnModel_init ''sklearn'' ''gs://bucket/model'')))"
proof -
  have h1: "Storage_download healthy_world (model_dir (SKLearnModel_init ''sklearn'' ''gs://bucket/model'')) =
              Inr ''/mnt//models/''"
    by (simp add: healthy_world_def)
  have h2: "''/mnt/models'' = Path_str ''/mnt//models/''"
    by (simp add: Path_str_def splitroot_def)
  have h3: "os_listdir healthy_world ''/mnt/models'' = Inr [''readme.txt'', ''model.joblib'', ''cache.pkl'']"
    by (simp add: healthy_world_def)
  have h4: "model_file_names healthy_world ''/mnt/models'' [''readme.txt'', ''model.joblib'', ''cache.pkl''] =
              [''model.joblib'']"
    by (simp add: healthy_world_def sk_eval)
  have h5: "joblib_load healthy_world (Path_truediv ''/mnt/models'' ''model.joblib'') = Inr healthy_estimator"
    by (simp add: healthy_world_def sk_eval)
  from load_succeeds_iff [OF h1 h2 h3] h1 h2 h3 h4 h5 show ?thesis by blast
qed

text \<open>
  Claim C9. A call of \<^verbatim>\<open>load\<close> that raises leaves the object unchanged; on a freshly
  constructed object \<^verbatim>\<open>ready\<close> is then still \<^verbatim>\<open>False\<close> and no model is
  assigned; and \<^verbatim>\<open>ready\<close> turns from \<^verbatim>\<open>False\<close> to \<^verbatim>\<open>True\<close> only in a
  call that returns \<^verbatim>\<open>True\<close> after \<^verbatim>\<open>joblib.load\<close> has produced the model that
  is assigned.
\<close>

theorem load_failure_leaves_state:
  "(isl (fst (load w self)) \<longrightarrow> snd (load w self) = self) \<and>
   (isl (fst (load w (SKLearnModel_init n d))) \<longrightarrow>
      ready (snd (load w (SKLearnModel_init n d))) = False \<and>
      model (snd (load w (SKLearnModel_init n d))) = None) \<and>
   (\<not> ready self \<and> ready (snd (load w self)) \<longrightarrow>
      (\<exists>file m. joblib_load w file = Inr m \<and> fst (load w self) = Inr True \<and>
                model (snd (load w self)) = Some m))"
proof -
  have a: "isl (fst (load w s)) \<longrightarrow> snd (load w s) = s" for s :: "'a SKLearnModel"
    by (simp add: load_def Let_def split: sum.splits)
  have b: "\<not> ready self \<and> ready (snd (load w self)) \<longrightarrow>
      (\<exists>file m. joblib_load w file = Inr m \<and> fst (load w self) = Inr True \<and>
                model (snd (load w self)) = Some m)"
    by (auto simp add: load_def Let_def split: sum.splits)
  have c: "ready (SKLearnModel_init n d :: 'a SKLearnModel) = False \<and>
           model (SKLearnModel_init n d :: 'a SKLearnModel) = None"
    by (simp add: SKLearnModel_init_def)
  from a [of self] a [of "SKLearnModel_init n d"] b c show ?thesis by metis
qed

theorem load_failure_leaves_state_witness:
  "isl (fst (load empty_world (SKLearnModel_init ''sklearn'' ''gs://bucket/model''))) \<and>
   snd (load empty_world (SKLearnModel_init ''sklearn'' ''gs://bucket/model'')) =
     SKLearnModel_init ''sklearn'' ''gs://bucket/model'' \<and>
   \<not> ready (SKLearnModel_init ''sklearn'' ''gs://bucket/model'' :: nat list SKLearnModel) \<and>
   ready (snd (load healthy_world (SKLearnModel_init ''sklearn'' ''gs://bucket/model''))) \<and>
   fst (load healthy_world (SKLearnModel_init ''sklearn'' ''gs://bucket/model'')) = Inr True"
proof -
  have h1: "isl (fst (load empty_world (SKLearnModel_init ''sklearn'' ''gs://bucket/model'')))"
    by (simp add: empty_world_def sk_eval)
  have h2: "\<not> ready (SKLearnModel_init ''sklearn'' ''gs://bucket/model'' :: nat list SKLearnModel)"
    by (simp add: sk_eval)
  have h3: "ready (snd (load healthy_world (SKLearnModel_init ''sklearn'' ''gs://bucket/model'')))"
    by (simp add: healthy_world_def sk_eval)
  from load_failure_leaves_state [of empty_world "SKLearnModel_init ''sklearn'' ''gs://bucket/model''" "''sklearn''" "''gs://bucket/model''"]
       load_failure_leaves_state [of healthy_world "SKLearnModel_init ''sklearn'' ''gs://bucket/model''" "''sklearn''" "''gs://bucket/model''"]
       h1 h2 h3
  show ?thesis by blast
qed

lemma selected_method_eq:
  "selected_method environ m =
     (case (if PREDICT_PROBA_enabled environ then predict_proba_m m else None) of
        Some predict_proba \<Rightarrow> predict_proba | None \<Rightarrow> predict_m m)"
  by (simp add: selected_method_def env_condition split: option.splits)

lemma predict_via_selected:
  assumes "payload ''instances'' = Some instances" and "model self = Some m"
  shows "snd (predict environ self payload) =
           except_Exception (tolist_and_return (selected_method environ m instances))"
    and "fst (predict environ self payload) =
           [if PREDICT_PROBA_enabled environ \<and> predict_proba_m m \<noteq> None
            then PredictProba instances else Predict instances]"
  using predict_loaded [of payload instances self m environ, OF assms]
  by (auto simp add: selected_method_eq split: option.splits)

text \<open>
  Claim C4. When the call of the selected method of the estimator, \<^verbatim>\<open>predict\<close> or
  \<^verbatim>\<open>predict_proba\<close>, raises an exception that is an instance of \<^verbatim>\<open>Exception\<close>,
  \<^verbatim>\<open>SKLearnModel.predict\<close> raises \<^verbatim>\<open>InferenceError\<close> carrying its description
  \<^verbatim>\<open>str(e)\<close>; an exception outside \<^verbatim>\<open>Exception\<close> is not caught and passes
  through unchanged.
\<close>

theorem predict_wraps_Exception:
  assumes "payload ''instances'' = Some instances"
      and "model self = Some m"
      and "selected_method environ m instances = Inl e"
  shows "snd (predict environ self payload) =
           (if is_Exception e then Inl (InferenceError (str e)) else Inl (Propagated e))"
  using predict_via_selected(1) [of payload instances self m environ, OF assms(1,2)] assms(3)
  by (simp add: tolist_and_return_def except_Exception_def)

theorem predict_wraps_Exception_witness:
  "iris_payload ''instances'' = Some [5, 7, 9] \<and>
   model (loaded_with failing_estimator) = Some failing_estimator \<and>
   selected_method Map.empty failing_estimator [5, 7, 9] =
     Inl (Foreign True ''Expected 2D array, got 1D array instead'') \<and>
   snd (predict Map.empty (loaded_with failing_estimator) iris_payload) =
     Inl (InferenceError ''Expected 2D array, got 1D array instead'')"
proof -
  have h1: "iris_payload ''instances'' = Some [5, 7, 9]"
    by (simp add: iris_payload_def)
  have h2: "model (loaded_with failing_estimator) = Some failing_estimator"
    by (simp add: loaded_with_def)
  have h3: "selected_method Map.empty failing_estimator [5, 7, 9] =
     Inl (Foreign True ''Expected 2D array, got 1D array instead'')"
    by (simp add: selected_method_def failing_estimator_def)
  from predict_wraps_Exception [where payload = iris_payload and environ = Map.empty, OF h1 h2 h3]
       h1 h2 h3
  show ?thesis by simp
qed

text \<open>
  An exception outside \<^verbatim>\<open>Exception\<close> raised by the estimator is not turned into
  \<^verbatim>\<open>InferenceError\<close>.
\<close>

theorem predict_propagates_BaseException:
  "selected_method Map.empty interrupted_estimator [5, 7, 9] = Inl (Foreign False ''interrupted'') \<and>
   snd (predict Map.empty (loaded_with interrupted_estimator) iris_payload) =
     Inl (Propagated (Foreign False ''interrupted'')) \<and>
   snd (predict Map.empty (loaded_with interrupted_estimator) iris_payload) \<noteq>
     Inl (InferenceError (str (Foreign False ''interrupted'')))"
  by (simp add: interrupted_estimator_def iris_payload_def sk_eval)

text \<open>
  Claim C5. A successful \<^verbatim>\<open>SKLearnModel.predict\<close> on a payload with instances has called
  the estimator exactly once, with those instances, and returns the dictionary whose only
  key \<^verbatim>\<open>predictions\<close> holds the list that the call produced; when the estimator
  keeps the order of its input, as the specification assumes, the list has one result for
  each instance, and the result at position \<open>i\<close> answers the instance at position
  \<open>i\<close>, whichever of the two methods was called; the dictionary has no key
  \<^verbatim>\<open>batchId\<close>.
\<close>

theorem predict_success_envelope:
  assumes "payload ''instances'' = Some instances"
      and "predict environ self payload = (calls, Inr response)"
  shows "\<exists>m result.
           model self = Some m \<and>
           selected_method environ m instances = Inr (Inr result) \<and>
           calls = [if PREDICT_PROBA_enabled environ \<and> predict_proba_m m \<noteq> None
                    then PredictProba instances else Predict instances] \<and>
           response = [''predictions'' \<mapsto> result] \<and>
           response ''batchId'' = None \<and>
           (estimator_keeps_order answers m \<longrightarrow>
              length result = length instances \<and>
              (\<forall>i < length instances. answers (instances ! i) (result ! i)))"
proof (cases "model self")
  case None
  with assms show ?thesis
    by (simp add: predict_def try_body_def except_Exception_def AttributeError_model_def)
next
  case (Some m)
  note ps = predict_via_selected [of payload instances self m environ, OF assms(1) Some]
  from assms(2) have r: "snd (predict environ self payload) = Inr response"
    and c: "fst (predict environ self payload) = calls" by simp_all
  from r ps(1) obtain result where
    sel: "selected_method environ m instances = Inr (Inr result)"
    and resp: "response = [''predictions'' \<mapsto> result]"
    by (auto simp add: tolist_and_return_def except_Exception_def split: sum.splits if_splits)
  from resp have nb: "response ''batchId'' = None" by simp
  have pos: "length result = length instances \<and>
             (\<forall>i < length instances. answers (instances ! i) (result ! i))"
    if k: "estimator_keeps_order answers m"
  proof -
    from k have "keeps_order answers (selected_method environ m)"
      by (auto simp add: estimator_keeps_order_def selected_method_def split: option.splits)
    with sel show ?thesis by (simp add: keeps_order_def)
  qed
  from Some sel resp nb c ps(2) pos show ?thesis by auto
qed

lemma healthy_keeps_order: "estimator_keeps_order iris_answers healthy_estimator"
  by (simp add: estimator_keeps_order_def keeps_order_def healthy_estimator_def iris_answers_def)

theorem predict_success_envelope_witness:
  "iris_payload ''instances'' = Some [5, 7, 9] \<and>
   predict Map.empty (loaded_with healthy_estimator) iris_payload =
     ([Predict [5, 7, 9]], Inr [''predictions'' \<mapsto> [2, 1, 0]]) \<and>
   predict [''PREDICT_PROBA'' \<mapsto> ''TRUE''] (loaded_with healthy_estimator) iris_payload =
     ([PredictProba [5, 7, 9]], Inr [''predictions'' \<mapsto> [1, 2, 3]]) \<and>
   [''predictions'' \<mapsto> [2, 1, 0 :: nat]] ''batchId'' = None \<and>
   estimator_keeps_order iris_answers healthy_estimator \<and>
   iris_answers 5 2 \<and> iris_answers 7 1 \<and> iris_answers 9 0 \<and>
   iris_answers 5 1 \<and> iris_answers 7 2 \<and> iris_answers 9 3"
proof -
  have h1: "iris_payload ''instances'' = Some [5, 7, 9]"
    by (simp add: iris_payload_def)
  have h2: "predict Map.empty (loaded_with healthy_estimator) iris_payload =
     ([Predict [5, 7, 9]], Inr [''predictions'' \<mapsto> [2, 1, 0]])"
    by (simp add: healthy_estimator_def iris_payload_def sk_eval)
  have h3: "predict [''PREDICT_PROBA'' \<mapsto> ''TRUE''] (loaded_with healthy_estimator) iris_payload =
     ([PredictProba [5, 7, 9]], Inr [''predictions'' \<mapsto> [1, 2, 3]])"
    by (simp add: healthy_estimator_def iris_payload_def sk_eval)
  have m: "model (loaded_with healthy_estimator) = Some healthy_estimator"
    by (simp add: loaded_with_def)
  from predict_success_envelope [where payload = iris_payload and answers = iris_answers, OF h1 h2] m
  obtain result where r: "[''predictions'' \<mapsto> [2, 1, 0]] = [''predictions'' \<mapsto> result]"
    and nb: "[''predictions'' \<mapsto> [2, 1, 0 :: nat]] ''batchId'' = None"
    and p: "estimator_keeps_order iris_answers healthy_estimator \<longrightarrow>
              length result = length [5, 7, 9 :: nat] \<and>
              (\<forall>i < length [5, 7, 9 :: nat]. iris_answers ([5, 7, 9] ! i) (result ! i))"
    by auto
  from r have r': "result = [2, 1, 0]"
    by (metis fun_upd_same option.inject)
  from predict_success_envelope [where payload = iris_payload and answers = iris_answers, OF h1 h3] m
  obtain result2 where r2: "[''predictions'' \<mapsto> [1, 2, 3]] = [''predictions'' \<mapsto> result2]"
    and p2: "estimator_keeps_order iris_answers healthy_estimator \<longrightarrow>
              length result2 = length [5, 7, 9 :: nat] \<and>
              (\<forall>i < length [5, 7, 9 :: nat]. iris_answers ([5, 7, 9] ! i) (result2 ! i))"
    by auto
  from r2 have r2': "result2 = [1, 2, 3]"
    by (metis fun_upd_same option.inject)
  note k = healthy_keeps_order
  from p k r' have a: "\<forall>i < 3. iris_answers ([5, 7, 9] ! i) ([2, 1, 0] ! i)" by simp
  from p2 k r2' have b: "\<forall>i < 3. iris_answers ([5, 7, 9] ! i) ([1, 2, 3] ! i)" by simp
  have a': "iris_answers 5 2 \<and> iris_answers 7 1 \<and> iris_answers 9 0"
    using a [rule_format, of 0] a [rule_format, of 1] a [rule_format, of 2] by simp
  have b': "iris_answers 5 1 \<and> iris_answers 7 2 \<and> iris_answers 9 3"
    using b [rule_format, of 0] b [rule_format, of 1] b [rule_format, of 2] by simp
  from h1 h2 h3 nb k a' b' show ?thesis by blast
qed

text \<open>
  A successful call on the healthy estimator: the returned dictionary has predictions and
  no batch identifier.
\<close>

theorem predict_envelope_has_no_batchId:
  "response_get (predict Map.empty (loaded_with healthy_estimator) iris_payload) ''predictions'' =
     Inr (Some [2, 1, 0]) \<and>
   response_get (predict Map.empty (loaded_with healthy_estimator) iris_payload) ''batchId'' =
     Inr None"
  by (simp add: response_get_def healthy_estimator_def iris_payload_def sk_eval)

text \<open>
  Claim C10. On a payload without the key \<^verbatim>\<open>instances\<close>, \<^verbatim>\<open>SKLearnModel.predict\<close> raises
  \<^verbatim>\<open>KeyError\<close>, not wrapped, and calls nothing on the estimator. It raises
  \<^verbatim>\<open>InferenceError\<close> exactly when the payload has instances and an instance of
  \<^verbatim>\<open>Exception\<close> is raised inside the guarded block, which the error then
  describes: by the call of the selected method, by \<^verbatim>\<open>tolist\<close> on what the call
  returned, or by reading \<^verbatim>\<open>self._model\<close> when no model has been loaded.
\<close>

theorem predict_missing_instances:
  "(payload ''instances'' = None \<longrightarrow>
      predict environ self payload = ([], Inl (KeyError ''instances''))) \<and>
   (snd (predict environ self payload) = Inl (InferenceError s) \<longleftrightarrow>
      (\<exists>instances e.
         payload ''instances'' = Some instances \<and> is_Exception e \<and> str e = s \<and>
         (model self = None \<and> e = AttributeError_model \<or>
          (\<exists>m. model self = Some m \<and>
               (selected_method environ m instances = Inl e \<or>
                selected_method environ m instances = Inr (Inl e))))))"
proof (cases "payload ''instances''")
  case None
  then show ?thesis by (simp add: predict_def)
next
  case (Some instances)
  note inst = this
  show ?thesis
  proof (cases "model self")
    case None
    with inst show ?thesis
      by (auto simp add: predict_def try_body_def except_Exception_def AttributeError_model_def)
  next
    case (Some m)
    note ps = predict_via_selected(1) [of payload instances self m environ, OF inst Some]
    from Some inst show ?thesis
      unfolding ps
      by (auto simp add: tolist_and_return_def except_Exception_def split: sum.splits if_splits)
  qed
qed

theorem predict_missing_instances_witness:
  "no_instances_payload ''instances'' = None \<and>
   predict Map.empty (loaded_with healthy_estimator) no_instances_payload =
     ([], Inl (KeyError ''instances'')) \<and>
   iris_payload ''instances'' = Some [5, 7, 9] \<and>
   model (loaded_with failing_estimator) = Some failing_estimator \<and>
   selected_method Map.empty failing_estimator [5, 7, 9] =
     Inl (Foreign True ''Expected 2D array, got 1D array instead'') \<and>
   snd (predict Map.empty (loaded_with failing_estimator) iris_payload) =
     Inl (InferenceError ''Expected 2D array, got 1D array instead'')"
proof -
  have h1: "no_instances_payload ''instances'' = None"
    by (simp add: no_instances_payload_def)
  have h2: "iris_payload ''instances'' = Some [5, 7, 9]"
    by (simp add: iris_payload_def)
  have h3: "model (loaded_with failing_estimator) = Some failing_estimator"
    by (simp add: loaded_with_def)
  have h4: "selected_method Map.empty failing_estimator [5, 7, 9] =
     Inl (Foreign True ''Expected 2D array, got 1D array instead'')"
    by (simp add: selected_method_def failing_estimator_def)
  have h5: "is_Exception (Foreign True ''Expected 2D array, got 1D array instead'') \<and>
            str (Foreign True ''Expected 2D array, got 1D array instead'') =
              ''Expected 2D array, got 1D array instead''"
    by simp
  from predict_missing_instances [of no_instances_payload Map.empty "loaded_with healthy_estimator"
         "''Expected 2D array, got 1D array instead''"] h1
  have a: "predict Map.empty (loaded_with healthy_estimator) no_instances_payload =
     ([], Inl (KeyError ''instances''))" by blast
  from predict_missing_instances [of iris_payload Map.empty "loaded_with failing_estimator"
         "''Expected 2D array, got 1D array instead''"] h2 h3 h4 h5
  have b: "snd (predict Map.empty (loaded_with failing_estimator) iris_payload) =
     Inl (InferenceError ''Expected 2D array, got 1D array instead'')" by blast
  from h1 a h2 h3 h4 b show ?thesis by blast
qed

text \<open>
  Before any model is loaded, a payload with instances is answered by
  \<^verbatim>\<open>InferenceError\<close> although nothing has been called on an estimator.
\<close>

theorem predict_wraps_unloaded_model:
  "iris_payload ''instances'' = Some [5, 7, 9] \<and>
   model (SKLearnModel_init ''sklearn'' ''/mnt/models'' :: nat list SKLearnModel) = None \<and>
   predict Map.empty (SKLearnModel_init ''sklearn'' ''/mnt/models'') iris_payload =
     ([], Inl (InferenceError (str AttributeError_model)))"
  by (simp add: iris_payload_def AttributeError_model_def sk_eval)

text \<open>
  A failure of \<^verbatim>\<open>tolist\<close> after a successful call of the estimator is wrapped as
  well.
\<close>

lemma predict_wraps_tolist_failure:
  "predict Map.empty (loaded_with listless_estimator) iris_payload =
     ([Predict [5, 7, 9]], Inl (InferenceError ''object has no attribute tolist''))"
  by (simp add: listless_estimator_def iris_payload_def sk_eval)

theorem predict_proba_selection_witness:
  "iris_payload ''instances'' = Some [5, 7, 9] \<and>
   model (loaded_with healthy_estimator) = Some healthy_estimator \<and>
   PREDICT_PROBA_enabled [''PREDICT_PROBA'' \<mapsto> ''True''] \<and>
   snd (predict [''PREDICT_PROBA'' \<mapsto> ''True''] (loaded_with healthy_estimator) iris_payload) =
     Inr [''predictions'' \<mapsto> [1, 2, 3]] \<and>
   \<not> PREDICT_PROBA_enabled [''PREDICT_PROBA'' \<mapsto> ''yes''] \<and>
   snd (predict [''PREDICT_PROBA'' \<mapsto> ''yes''] (loaded_with healthy_estimator) iris_payload) =
     Inr [''predictions'' \<mapsto> [2, 1, 0]]"
proof -
  have h1: "iris_payload ''instances'' = Some [5, 7, 9]"
    by (simp add: iris_payload_def)
  have h2: "model (loaded_with healthy_estimator) = Some healthy_estimator"
    by (simp add: loaded_with_def)
  have h3: "PREDICT_PROBA_enabled [''PREDICT_PROBA'' \<mapsto> ''True'']"
    by (simp add: PREDICT_PROBA_enabled_def is_true_ignoring_case_def)
  have h4: "\<not> PREDICT_PROBA_enabled [''PREDICT_PROBA'' \<mapsto> ''yes'']"
    by (simp add: PREDICT_PROBA_enabled_def is_true_ignoring_case_def)
  have h5: "predict_proba_m healthy_estimator = Some (\<lambda>xs. Inr (Inr (map (\<lambda>x. x div 3) xs)))"
    by (simp add: healthy_estimator_def)
  have h6: "predict_m healthy_estimator = (\<lambda>xs. Inr (Inr (map (\<lambda>x. x mod 3) xs)))"
    by (simp add: healthy_estimator_def)
  from predict_proba_selection [where payload = iris_payload
           and environ = "[''PREDICT_PROBA'' \<mapsto> ''True'']"
           and predict_proba = "\<lambda>xs. Inr (Inr (map (\<lambda>x. x div 3) xs))", OF h1 h2]
       predict_proba_selection [where payload = iris_payload
           and environ = "[''PREDICT_PROBA'' \<mapsto> ''yes'']", OF h1 h2]
       h1 h2 h3 h4 h5 h6
  show ?thesis by (simp add: tolist_and_return_def except_Exception_def)
qed

section \<open>Properties of the batching engine\<close>

lemma dispatch_state_irrelevant [simp]:
  "snd (dispatch predictor (b\<lparr>state := s\<rparr>)) = snd (dispatch predictor b)"
  by (simp add: dispatch_def fail_all_def split: sum.splits)

lemma dispatch_fst:
  "batch_id (fst (dispatch predictor b)) = batch_id b"
  "items (fst (dispatch predictor b)) = items b"
  "state (fst (dispatch predictor b)) \<noteq> OPEN"
  by (simp_all add: dispatch_def split: sum.splits)

lemma dispatch_fst_snd [simp]:
  "snd (dispatch predictor (fst (dispatch predictor b))) = snd (dispatch predictor b)"
  by (simp add: dispatch_def fail_all_def split: sum.splits)

lemma dispatch_empty: "items b = [] \<Longrightarrow> snd (dispatch predictor b) = []"
  by (simp add: dispatch_def fail_all_def split: sum.splits)

lemma dispatch_sinks: "map sink (snd (dispatch predictor b)) = sinks_of b"
  by (auto simp add: dispatch_def fail_all_def sinks_of_def comp_def zip_map_fst_snd
      map_fst_zip split: sum.splits
      intro!: nth_equalityI)

lemma sinks_of_update [simp]:
  "sinks_of (b\<lparr>state := s\<rparr>) = sinks_of b"
  "sinks_of (fst (dispatch predictor b)) = sinks_of b"
  by (simp_all add: sinks_of_def dispatch_fst)

lemma sinks_of_empty [simp]:
  "sinks_of \<lparr>batch_id = i, items = [], state = s, deadline = d\<rparr> = []"
  by (simp add: sinks_of_def)

lemma engine_inv_new: "engine_inv predictor (new_engine mbs lat)"
  by (simp add: engine_inv_def new_engine_def pending_def)

lemma engine_inv_open:
  assumes "engine_inv predictor e" and "current e = None"
  shows "engine_inv predictor (open_batch e)"
  using assms
  by (auto simp add: engine_inv_def open_batch_def pending_def sinks_of_def less_Suc_eq)

lemma engine_inv_close:
  assumes "engine_inv predictor e"
  shows "engine_inv predictor (close_batch predictor e)"
proof (cases "current e")
  case None
  with assms show ?thesis by (simp add: close_batch_def)
next
  case (Some b)
  from assms Some have b: "batch_id b < next_batch_id e" "batch_id b \<notin> batch_id ` set (history e)"
    "state b = OPEN"
    by (simp_all add: engine_inv_def)
  from assms Some have s: "concat (map sinks_of (history e)) @ sinks_of b = [0..<next_sink e]"
    by (simp add: engine_inv_def pending_def)
  from assms have d: "distinct (map batch_id (history e))"
    and l: "\<forall>b \<in> set (history e). batch_id b < next_batch_id e"
    and dl: "delivered e = concat (map (\<lambda>b. snd (dispatch predictor b)) (history e))"
    and iv: "invocations e = map (\<lambda>b. map item_payload (items b)) (filter (\<lambda>b. items b \<noteq> []) (history e))"
    by (simp_all add: engine_inv_def)
  show ?thesis
  proof (cases "items b = []")
    case True
    with Some b s d l dl iv show ?thesis
      by (auto simp add: engine_inv_def close_batch_def open_batch_def pending_def Let_def
            dispatch_empty sinks_of_def less_Suc_eq)
  next
    case False
    obtain finished ds where fd: "dispatch predictor (b\<lparr>state := DISPATCHED\<rparr>) = (finished, ds)"
      by (cases "dispatch predictor (b\<lparr>state := DISPATCHED\<rparr>)")
    then have f: "finished = fst (dispatch predictor (b\<lparr>state := DISPATCHED\<rparr>))"
      and ds: "ds = snd (dispatch predictor b)"
      using dispatch_state_irrelevant [where predictor = predictor and b = b and s = DISPATCHED]
      by simp_all
    have fi: "batch_id finished = batch_id b" "items finished = items b"
      "sinks_of finished = sinks_of b" "snd (dispatch predictor finished) = snd (dispatch predictor b)"
      unfolding f by (simp_all add: dispatch_fst)
    from Some b s d l dl iv False fd fi ds show ?thesis
      by (auto simp add: engine_inv_def close_batch_def open_batch_def pending_def Let_def
             less_Suc_eq)
  qed
qed

lemma engine_inv_timer:
  "engine_inv predictor e \<Longrightarrow> engine_inv predictor (timer_fire predictor bid e)"
  by (simp add: timer_fire_def engine_inv_close split: option.splits)

lemma engine_inv_append:
  assumes "engine_inv predictor e" and "current e = Some b"
  shows "engine_inv predictor
           (e\<lparr>current := Some (b\<lparr>items := items b @ [\<lparr>item_payload = p, resultSink = next_sink e, enqueuedAt = t\<rparr>]\<rparr>),
              next_sink := Suc (next_sink e)\<rparr>)"
proof -
  from assms have s: "concat (map sinks_of (history e)) @ sinks_of b = [0..<next_sink e]"
    by (simp add: engine_inv_def pending_def)
  from assms s show ?thesis
    by (simp add: engine_inv_def pending_def sinks_of_def flip: append_assoc)
qed

lemma engine_inv_enqueue:
  assumes "engine_inv predictor e"
  shows "engine_inv predictor (snd (enqueue predictor p e))"
proof (cases "shutting_down e")
  case True
  with assms show ?thesis by (simp add: enqueue_def)
next
  case False
  define e1 where "e1 = (case current e of
                     None \<Rightarrow> open_batch e
                   | Some b \<Rightarrow> if state b = OPEN then e else open_batch e)"
  from assms have "\<forall>b. current e = Some b \<longrightarrow> state b = OPEN"
    by (simp add: engine_inv_def)
  with assms have i1: "engine_inv predictor e1"
    by (auto simp add: e1_def engine_inv_open split: option.splits)
  have "current e1 \<noteq> None"
    by (auto simp add: e1_def open_batch_def split: option.splits)
  then obtain b where b: "current e1 = Some b" by auto
  define e2 where "e2 = e1\<lparr>current := Some (b\<lparr>items := items b @ [\<lparr>item_payload = p, resultSink = next_sink e1, enqueuedAt = now e1\<rparr>]\<rparr>),
              next_sink := Suc (next_sink e1)\<rparr>"
  have i2: "engine_inv predictor e2"
    unfolding e2_def by (rule engine_inv_append [OF i1 b])
  have "snd (enqueue predictor p e) = e2 \<or> snd (enqueue predictor p e) = close_batch predictor e2"
    using False b by (simp add: enqueue_def Let_def flip: e1_def) (simp add: e2_def)
  with i2 engine_inv_close [OF i2] show ?thesis by auto
qed

lemma engine_inv_step:
  "engine_inv predictor e \<Longrightarrow> engine_inv predictor (step predictor e ev)"
  by (cases ev) (simp_all add: engine_inv_enqueue engine_inv_timer, auto simp add: engine_inv_def pending_def)

lemma engine_inv_run:
  "engine_inv predictor e \<Longrightarrow> engine_inv predictor (run predictor e evs)"
  unfolding run_def by (induction evs arbitrary: e) (simp_all add: engine_inv_step)

lemma engine_inv_reachable:
  "engine_inv predictor (run predictor (new_engine mbs lat) evs)"
  by (simp add: engine_inv_run engine_inv_new)

lemma distinct_concat_index:
  "distinct (concat xss) \<Longrightarrow> i < length xss \<Longrightarrow> j < length xss \<Longrightarrow>
     x \<in> set (xss ! i) \<Longrightarrow> x \<in> set (xss ! j) \<Longrightarrow> i = j"
proof (induction xss arbitrary: i j)
  case Nil
  then show ?case by simp
next
  case (Cons xs xss)
  from Cons.prems(1) have d: "distinct (concat xss)"
    and disj: "set xs \<inter> set (concat xss) = {}" by auto
  have later: "x \<in> set (xss ! k) \<Longrightarrow> k < length xss \<Longrightarrow> x \<in> set (concat xss)" for k
    by (metis concat_map_singleton in_set_conv_nth set_concat UN_I nth_mem)
  show ?case
  proof (cases i)
    case 0
    show ?thesis
    proof (cases j)
      case 0
      with \<open>i = 0\<close> show ?thesis by simp
    next
      case (Suc j')
      with Cons.prems \<open>i = 0\<close> later [of j'] disj show ?thesis by auto
    qed
  next
    case (Suc i')
    show ?thesis
    proof (cases j)
      case 0
      with Cons.prems Suc later [of i'] disj show ?thesis by auto
    next
      case (Suc j')
      with Cons.prems \<open>i = Suc i'\<close> Cons.IH [OF d, of i' j'] show ?thesis by simp
    qed
  qed
qed

lemma dispatch_batchId:
  "d \<in> set (snd (dispatch predictor b)) \<Longrightarrow> batchId d = batch_id b"
  by (auto simp add: dispatch_def fail_all_def split: sum.splits if_splits dest!: set_zip_leftD
      elim!: in_set_zipE)

lemma dispatch_length: "length (snd (dispatch predictor b)) = length (items b)"
  using dispatch_sinks [of predictor b, THEN arg_cong, of length] by (simp add: sinks_of_def)

lemma dispatch_failure:
  "predictor (map item_payload (items b)) = Inl description \<Longrightarrow>
     snd (dispatch predictor b) = fail_all b (InferenceError description)"
  by (simp add: dispatch_def)

lemma delivery_origin:
  assumes "engine_inv predictor e" and "d \<in> set (delivered e)"
  shows "\<exists>k < length (history e). d \<in> set (snd (dispatch predictor (history e ! k)))"
proof -
  from assms have "d \<in> set (concat (map (\<lambda>b. snd (dispatch predictor b)) (history e)))"
    by (simp add: engine_inv_def)
  then obtain b where "b \<in> set (history e)" "d \<in> set (snd (dispatch predictor b))" by auto
  then show ?thesis by (auto simp add: in_set_conv_nth)
qed

lemma sinks_distinct:
  assumes "engine_inv predictor e"
  shows "distinct (concat (map sinks_of (history e)))"
proof -
  from assms have "distinct (concat (map sinks_of (history e)) @ pending e)"
    by (simp add: engine_inv_def)
  then show ?thesis by simp
qed

lemma batch_of_sink_unique:
  assumes "engine_inv predictor e"
    and "i < length (history e)" and "j < length (history e)"
    and "s \<in> set (sinks_of (history e ! i))" and "s \<in> set (sinks_of (history e ! j))"
  shows "i = j"
  using distinct_concat_index [OF sinks_distinct [OF assms(1)], of i j s] assms(2-) by simp

lemma delivery_batch:
  assumes "engine_inv predictor e" and "d \<in> set (delivered e)"
    and "i < length (history e)" and "sink d \<in> set (sinks_of (history e ! i))"
  shows "d \<in> set (snd (dispatch predictor (history e ! i)))"
proof -
  from delivery_origin [OF assms(1,2)] obtain k where k: "k < length (history e)"
    and dk: "d \<in> set (snd (dispatch predictor (history e ! k)))" by auto
  from dk have "sink d \<in> set (map sink (snd (dispatch predictor (history e ! k))))" by simp
  then have "sink d \<in> set (sinks_of (history e ! k))" by (simp only: dispatch_sinks)
  with batch_of_sink_unique [OF assms(1) k assms(3) _ assms(4)] have "k = i" by simp
  with dk show ?thesis by simp
qed

text \<open>
  Claim C1. In every run, each delivery belongs to exactly one closed batch (the one that holds the
  item of its sink) and carries the identifier of that batch, whether it is a result or an
  error; so two deliveries carry the same identifier exactly when their items were admitted
  into the same batch, and items of different batches never observe the same identifier.
\<close>

theorem batch_identity:
  assumes "e = run predictor (new_engine mbs lat) evs"
      and "d1 \<in> set (delivered e)" and "d2 \<in> set (delivered e)"
  shows "\<exists>i j. i < length (history e) \<and> j < length (history e) \<and>
           sink d1 \<in> set (sinks_of (history e ! i)) \<and>
           sink d2 \<in> set (sinks_of (history e ! j)) \<and>
           (\<forall>k < length (history e). sink d1 \<in> set (sinks_of (history e ! k)) \<longrightarrow> k = i) \<and>
           (\<forall>k < length (history e). sink d2 \<in> set (sinks_of (history e ! k)) \<longrightarrow> k = j) \<and>
           batchId d1 = batch_id (history e ! i) \<and>
           batchId d2 = batch_id (history e ! j) \<and>
           (batchId d1 = batchId d2 \<longleftrightarrow> i = j)"
proof -
  have inv: "engine_inv predictor e"
    unfolding assms(1) by (rule engine_inv_reachable)
  have batch: "\<exists>i < length (history e).
                 sink d \<in> set (sinks_of (history e ! i)) \<and>
                 (\<forall>k < length (history e). sink d \<in> set (sinks_of (history e ! k)) \<longrightarrow> k = i) \<and>
                 batchId d = batch_id (history e ! i)"
    if d: "d \<in> set (delivered e)" for d
  proof -
    from delivery_origin [OF inv d] obtain i where i: "i < length (history e)"
      and di: "d \<in> set (snd (dispatch predictor (history e ! i)))" by auto
    from di have "sink d \<in> set (map sink (snd (dispatch predictor (history e ! i))))" by simp
    then have s: "sink d \<in> set (sinks_of (history e ! i))" by (simp only: dispatch_sinks)
    have u: "\<forall>k < length (history e). sink d \<in> set (sinks_of (history e ! k)) \<longrightarrow> k = i"
      using batch_of_sink_unique [OF inv _ i _ s] by blast
    from i s u dispatch_batchId [OF di] show ?thesis by blast
  qed
  from batch [OF assms(2)] obtain i where i: "i < length (history e)"
    "sink d1 \<in> set (sinks_of (history e ! i))"
    "\<forall>k < length (history e). sink d1 \<in> set (sinks_of (history e ! k)) \<longrightarrow> k = i"
    "batchId d1 = batch_id (history e ! i)" by blast
  from batch [OF assms(3)] obtain j where j: "j < length (history e)"
    "sink d2 \<in> set (sinks_of (history e ! j))"
    "\<forall>k < length (history e). sink d2 \<in> set (sinks_of (history e ! k)) \<longrightarrow> k = j"
    "batchId d2 = batch_id (history e ! j)" by blast
  from inv have "distinct (map batch_id (history e))" by (simp add: engine_inv_def)
  with i(1) j(1) have "batch_id (history e ! i) = batch_id (history e ! j) \<longleftrightarrow> i = j"
    by (metis length_map nth_eq_iff_index_eq nth_map)
  with i(4) j(4) have "batchId d1 = batchId d2 \<longleftrightarrow> i = j" by simp
  with i j show ?thesis by blast
qed

text \<open>
  Claim C6. When the predictor call for a closed batch fails, every item of that batch is delivered
  to, and every delivery to an item of that batch is the same failure,
  \<^verbatim>\<open>InferenceError\<close> carrying the description of the predictor's error, tagged with
  the batch's identifier; so no item of the batch receives a success.
\<close>

theorem batch_fails_atomically:
  assumes "e = run predictor (new_engine mbs lat) evs"
      and "b \<in> set (history e)"
      and "predictor (map item_payload (items b)) = Inl description"
      and "it \<in> set (items b)"
  shows "(\<exists>d \<in> set (delivered e). sink d = resultSink it) \<and>
         (\<forall>d \<in> set (delivered e). sink d = resultSink it \<longrightarrow>
            batchId d = batch_id b \<and> result d = Inl (InferenceError description))"
proof -
  have inv: "engine_inv predictor e"
    unfolding assms(1) by (rule engine_inv_reachable)
  from assms(2) obtain i where i: "i < length (history e)" and bi: "history e ! i = b"
    by (auto simp add: in_set_conv_nth)
  note df = dispatch_failure [where predictor = predictor and b = b, OF assms(3)]
  let ?d = "\<lparr>sink = resultSink it, batchId = batch_id b, result = Inl (InferenceError description)\<rparr> :: 'b delivery"
  from assms(4) have "?d \<in> set (snd (dispatch predictor b))"
    by (simp add: df fail_all_def)
  with assms(2) inv have "?d \<in> set (delivered e)"
    by (auto simp add: engine_inv_def)
  then have ex: "\<exists>d \<in> set (delivered e). sink d = resultSink it"
    by (metis delivery.select_convs(1))
  have all: "batchId d = batch_id b \<and> result d = Inl (InferenceError description)"
    if d: "d \<in> set (delivered e)" and s: "sink d = resultSink it" for d
  proof -
    from s assms(4) bi have "sink d \<in> set (sinks_of (history e ! i))"
      by (simp add: sinks_of_def)
    from delivery_batch [OF inv d i this] bi
    have "d \<in> set (fail_all b (InferenceError description))"
      by (simp add: df)
    then show ?thesis by (auto simp add: fail_all_def)
  qed
  from ex all show ?thesis by blast
qed

lemma delivered_sinks:
  assumes "engine_inv predictor e"
  shows "map sink (delivered e) = concat (map sinks_of (history e))"
proof -
  from assms have "delivered e = concat (map (\<lambda>b. snd (dispatch predictor b)) (history e))"
    by (simp add: engine_inv_def)
  then show ?thesis
    by (simp add: map_concat comp_def dispatch_sinks)
qed

lemma filter_dispatch:
  "filter (\<lambda>d. batchId d = n) (snd (dispatch predictor b)) =
     (if batch_id b = n then snd (dispatch predictor b) else [])"
  by (auto simp add: filter_empty_conv dest: dispatch_batchId intro: filter_True)

lemma count_per_batch:
  "distinct (map batch_id hs) \<Longrightarrow> b \<in> set hs \<Longrightarrow>
     length (filter (\<lambda>d. batchId d = batch_id b)
               (concat (map (\<lambda>b. snd (dispatch predictor b)) hs))) = length (items b)"
proof (induction hs)
  case Nil
  then show ?case by simp
next
  case (Cons h hs)
  show ?case
  proof (cases "b = h")
    case True
    from Cons.prems(1) have "batch_id h \<notin> batch_id ` set hs" by simp
    with True have "\<forall>x \<in> set hs. batch_id x \<noteq> batch_id b"
      by (metis imageI)
    then have "filter (\<lambda>d. batchId d = batch_id b)
                 (concat (map (\<lambda>b. snd (dispatch predictor b)) hs)) = []"
      by (auto simp add: filter_empty_conv dest: dispatch_batchId)
    with True show ?thesis by (simp add: filter_dispatch dispatch_length)
  next
    case False
    with Cons.prems have "b \<in> set hs" and "batch_id h \<noteq> batch_id b" by auto
    with Cons show ?thesis by (simp add: filter_dispatch)
  qed
qed

lemma close_batch_pending:
  assumes "current e = Some b" and "state b = OPEN"
  shows "pending (close_batch predictor e) = []"
    and "next_sink (close_batch predictor e) = next_sink e"
  using assms
  by (simp_all add: close_batch_def open_batch_def pending_def Let_def split: prod.splits)

lemma flush_pending:
  assumes "engine_inv predictor e"
  shows "pending (run predictor e [Elapse (max_latency e), TimerFire (current_batch_id e)]) = []"
    and "next_sink (run predictor e [Elapse (max_latency e), TimerFire (current_batch_id e)]) = next_sink e"
proof -
  let ?e1 = "e\<lparr>now := now e + max_latency e\<rparr>"
  have r: "run predictor e [Elapse (max_latency e), TimerFire (current_batch_id e)] =
             timer_fire predictor (current_batch_id e) ?e1"
    by (simp add: run_def)
  show "pending (run predictor e [Elapse (max_latency e), TimerFire (current_batch_id e)]) = []"
  proof (cases "current e")
    case None
    then show ?thesis unfolding r by (simp add: timer_fire_def pending_def)
  next
    case (Some b)
    with assms have "state b = OPEN" "deadline b \<le> now e + max_latency e"
      by (simp_all add: engine_inv_def)
    with Some show ?thesis unfolding r
      using close_batch_pending(1) [of ?e1 b predictor]
      by (simp add: timer_fire_def current_batch_id_def)
  qed
  show "next_sink (run predictor e [Elapse (max_latency e), TimerFire (current_batch_id e)]) = next_sink e"
  proof (cases "current e")
    case None
    then show ?thesis unfolding r by (simp add: timer_fire_def)
  next
    case (Some b)
    with assms have "state b = OPEN" "deadline b \<le> now e + max_latency e"
      by (simp_all add: engine_inv_def)
    with Some show ?thesis unfolding r
      using close_batch_pending(2) [of ?e1 b predictor]
      by (simp add: timer_fire_def current_batch_id_def)
  qed
qed

text \<open>
  Claim C7. In every run no sink is resolved twice; for every closed batch the number of deliveries
  tagged with its identifier is the number of its items; the sinks resolved so far followed
  by those waiting in the open batch are exactly the sinks handed out; and once
  \<^verbatim>\<open>max_latency\<close> has passed and the timer of the open batch has fired, nothing waits
  and every sink handed out has been resolved.
\<close>

theorem exactly_once_delivery:
  assumes "e = run predictor (new_engine mbs lat) evs"
      and "e' = run predictor e [Elapse (max_latency e), TimerFire (current_batch_id e)]"
  shows "distinct (map sink (delivered e)) \<and>
         (\<forall>b \<in> set (history e).
            length (filter (\<lambda>d. batchId d = batch_id b) (delivered e)) = length (items b)) \<and>
         map sink (delivered e) @ pending e = [0..<next_sink e] \<and>
         pending e' = [] \<and> map sink (delivered e') = [0..<next_sink e]"
proof -
  have inv: "engine_inv predictor e"
    unfolding assms(1) by (rule engine_inv_reachable)
  have inv': "engine_inv predictor e'"
    unfolding assms(2) by (rule engine_inv_run [OF inv])
  from inv have "concat (map sinks_of (history e)) @ pending e = [0..<next_sink e]"
    by (simp add: engine_inv_def)
  then have cover: "map sink (delivered e) @ pending e = [0..<next_sink e]"
    by (simp only: delivered_sinks [OF inv])
  then have "distinct (map sink (delivered e) @ pending e)" by simp
  then have once: "distinct (map sink (delivered e))" by simp
  from inv have count: "\<forall>b \<in> set (history e).
            length (filter (\<lambda>d. batchId d = batch_id b) (delivered e)) = length (items b)"
    by (simp add: engine_inv_def count_per_batch)
  from inv' have "concat (map sinks_of (history e')) @ pending e' = [0..<next_sink e']"
    by (simp add: engine_inv_def)
  then have "map sink (delivered e') @ pending e' = [0..<next_sink e']"
    by (simp only: delivered_sinks [OF inv'])
  with flush_pending [OF inv] have fl: "pending e' = [] \<and> map sink (delivered e') = [0..<next_sink e]"
    by (simp add: assms(2))
  from once count cover fl show ?thesis by blast
qed

lemma submissions_simps [simp]:
  "submissions [] = []"
  "submissions (evs @ evs') = submissions evs @ submissions evs'"
  "submissions [Submit p] = [p]"
  "submissions [Elapse d] = []"
  "submissions [TimerFire n] = []"
  "submissions [Shutdown] = []"
  by (simp_all add: submissions_def)

lemma elapsed_simps [simp]:
  "elapsed [] = 0"
  "elapsed (evs @ evs') = elapsed evs + elapsed evs'"
  "elapsed [Submit p] = 0"
  "elapsed [Elapse d] = d"
  "elapsed [TimerFire n] = 0"
  "elapsed [Shutdown] = 0"
  by (simp_all add: elapsed_def)

lemma run_snoc [simp]: "run predictor e (evs @ [ev]) = step predictor (run predictor e evs) ev"
  by (simp add: run_def)

lemma filling_new: "filling mbs lat ts [] 0 ((new_engine mbs lat)\<lparr>now := ts\<rparr>)"
  by (simp add: filling_def new_engine_def)

lemma filling_elapse:
  "filling mbs lat ts ps t e \<Longrightarrow> filling mbs lat ts ps (t + d) (step predictor e (Elapse d))"
  by (auto simp add: filling_def)

lemma filling_timer:
  assumes "filling mbs lat ts ps t e" and "t < lat"
  shows "filling mbs lat ts ps t (step predictor e (TimerFire n))"
proof (cases "ps = []")
  case True
  with assms show ?thesis by (simp add: filling_def timer_fire_def)
next
  case False
  with assms obtain b where "current e = Some b" "ts + lat \<le> deadline b" "now e = ts + t"
    by (auto simp add: filling_def)
  with assms(2) have "timer_fire predictor n e = e"
    by (simp add: timer_fire_def)
  with assms(1) show ?thesis by simp
qed

lemma enqueue_filling:
  assumes "filling mbs lat ts ps t e"
  obtains b where
    "snd (enqueue predictor p e) =
       (let e2 = (if ps = [] then open_batch e else e)
                   \<lparr>current := Some b, next_sink := Suc (length ps)\<rparr>
        in if Suc (length ps) = mbs then close_batch predictor e2 else e2)"
    "batch_id b = 0" "state b = OPEN" "ts + lat \<le> deadline b"
    "map item_payload (items b) = ps @ [p]" "sinks_of b = [0..<Suc (length ps)]"
proof (cases "ps = []")
  case True
  let ?b = "\<lparr>batch_id = 0, items = [\<lparr>item_payload = p, resultSink = 0, enqueuedAt = ts + t\<rparr>],
             state = OPEN, deadline = ts + t + lat\<rparr>"
  from assms True have
    "snd (enqueue predictor p e) =
       (let e2 = (if ps = [] then open_batch e else e)
                   \<lparr>current := Some ?b, next_sink := Suc (length ps)\<rparr>
        in if Suc (length ps) = mbs then close_batch predictor e2 else e2)"
    by (simp add: filling_def enqueue_def open_batch_def Let_def)
  then show ?thesis
    using True by (intro that [of ?b]) (simp_all add: sinks_of_def)
next
  case False
  with assms obtain b0 where b0: "current e = Some b0" "batch_id b0 = 0" "state b0 = OPEN"
    "ts + lat \<le> deadline b0" "map item_payload (items b0) = ps" "sinks_of b0 = [0..<length ps]"
    by (auto simp add: filling_def)
  let ?b = "b0\<lparr>items := items b0 @ [\<lparr>item_payload = p, resultSink = length ps, enqueuedAt = ts + t\<rparr>]\<rparr>"
  from b0(5) have len: "length (items b0) = length ps"
    by (metis length_map)
  from assms False b0 len have
    "snd (enqueue predictor p e) =
       (let e2 = (if ps = [] then open_batch e else e)
                   \<lparr>current := Some ?b, next_sink := Suc (length ps)\<rparr>
        in if Suc (length ps) = mbs then close_batch predictor e2 else e2)"
    by (simp add: filling_def enqueue_def Let_def)
  then show ?thesis
    using b0 by (intro that [of ?b]) (simp_all add: sinks_of_def)
qed

lemma filling_submit:
  assumes "filling mbs lat ts ps t e" and "Suc (length ps) < mbs"
  shows "filling mbs lat ts (ps @ [p]) t (step predictor e (Submit p))"
proof -
  from enqueue_filling [OF assms(1), of predictor p] obtain b where
    s: "snd (enqueue predictor p e) =
       (let e2 = (if ps = [] then open_batch e else e)
                   \<lparr>current := Some b, next_sink := Suc (length ps)\<rparr>
        in if Suc (length ps) = mbs then close_batch predictor e2 else e2)"
    and b: "batch_id b = 0" "state b = OPEN" "ts + lat \<le> deadline b"
    "map item_payload (items b) = ps @ [p]" "sinks_of b = [0..<Suc (length ps)]"
    by blast
  from assms b show ?thesis
    unfolding step.simps s
    by (auto simp add: filling_def open_batch_def Let_def)
qed

lemma flushed_submit:
  assumes "filling mbs lat ts ps t e" and "Suc (length ps) = mbs"
    and "predictor (ps @ [p]) = Inr rs" and "length rs = mbs"
  shows "flushed mbs lat ts (ps @ [p]) rs t (step predictor e (Submit p))"
proof -
  from enqueue_filling [OF assms(1), of predictor p] obtain b where
    s: "snd (enqueue predictor p e) =
       (let e2 = (if ps = [] then open_batch e else e)
                   \<lparr>current := Some b, next_sink := Suc (length ps)\<rparr>
        in if Suc (length ps) = mbs then close_batch predictor e2 else e2)"
    and b: "batch_id b = 0" "state b = OPEN" "ts + lat \<le> deadline b"
    "map item_payload (items b) = ps @ [p]" "sinks_of b = [0..<Suc (length ps)]"
    by blast
  from b(4) have len: "length (items b) = Suc (length ps)"
    by (metis length_map length_append_singleton)
  then have ne: "items b \<noteq> []" by auto
  have nth_sink: "resultSink (items b ! i) = i" if "i < length (items b)" for i
  proof -
    from that have "resultSink (items b ! i) = map resultSink (items b) ! i" by simp
    also from b(5) have "map resultSink (items b) = [0..<Suc (length ps)]"
      by (simp add: sinks_of_def)
    finally show ?thesis using that len by (simp del: upt_Suc)
  qed
  have z: "map (\<lambda>(it, r). \<lparr>sink = resultSink it, batchId = 0, result = Inr r\<rparr>) (zip (items b) rs) =
           map (\<lambda>(s, r). \<lparr>sink = s, batchId = 0, result = Inr r\<rparr>) (zip [0..<Suc (length ps)] rs)"
    using len assms(2,4)
    by (intro nth_equalityI) (simp_all add: nth_sink)
  have d: "dispatch predictor (b\<lparr>state := DISPATCHED\<rparr>) =
           (b\<lparr>state := COMPLETED\<rparr>,
            map (\<lambda>(s, r). \<lparr>sink = s, batchId = 0, result = Inr r\<rparr>) (zip [0..<Suc (length ps)] rs))"
    using assms(2,3,4) b len z by (simp add: dispatch_def)
  from assms b ne d show ?thesis
    unfolding step.simps s
    by (auto simp add: flushed_def filling_def close_batch_def open_batch_def Let_def)
qed

lemma flushed_elapse:
  "flushed mbs lat ts ps rs t e \<Longrightarrow> flushed mbs lat ts ps rs (t + d) (step predictor e (Elapse d))"
  by (auto simp add: flushed_def)

lemma flushed_timer:
  assumes "flushed mbs lat ts ps rs t e" and "t < lat"
  shows "flushed mbs lat ts ps rs t (step predictor e (TimerFire n))"
proof -
  from assms obtain b where "current e = Some b" "ts + lat \<le> deadline b" "now e = ts + t"
    by (auto simp add: flushed_def)
  with assms(2) have "timer_fire predictor n e = e"
    by (simp add: timer_fire_def)
  with assms(1) show ?thesis by simp
qed

lemma flood_phases:
  assumes "0 < mbs"
  shows "Shutdown \<notin> set evs \<Longrightarrow> elapsed evs < lat \<Longrightarrow> length (submissions evs) \<le> mbs \<Longrightarrow>
     (length (submissions evs) < mbs \<longrightarrow>
        filling mbs lat ts (submissions evs) (elapsed evs) (run predictor ((new_engine mbs lat)\<lparr>now := ts\<rparr>) evs)) \<and>
     (length (submissions evs) = mbs \<longrightarrow> predictor (submissions evs) = Inr rs \<longrightarrow> length rs = mbs \<longrightarrow>
        flushed mbs lat ts (submissions evs) rs (elapsed evs) (run predictor ((new_engine mbs lat)\<lparr>now := ts\<rparr>) evs))"
proof (induction evs rule: rev_induct)
  case Nil
  with assms show ?case by (simp add: run_def filling_new)
next
  case (snoc ev evs)
  from snoc.prems have p: "Shutdown \<notin> set evs" "elapsed evs < lat" "length (submissions evs) \<le> mbs"
    by simp_all
  note IH = snoc.IH [OF p]
  show ?case
  proof (cases ev)
    case (Submit p)
    with snoc.prems have lt: "length (submissions evs) < mbs" and el: "elapsed (evs @ [ev]) = elapsed evs"
      by simp_all
    with IH have f: "filling mbs lat ts (submissions evs) (elapsed evs) (run predictor ((new_engine mbs lat)\<lparr>now := ts\<rparr>) evs)"
      by simp
    show ?thesis
    proof (cases "Suc (length (submissions evs)) < mbs")
      case True
      with filling_submit [OF f True, where predictor = predictor and p = p] Submit show ?thesis
        by simp
    next
      case False
      with lt have eq: "Suc (length (submissions evs)) = mbs" by simp
      with flushed_submit [OF f eq, where predictor = predictor and p = p and rs = rs] Submit
      show ?thesis
        by simp
    qed
  next
    case (Elapse d)
    with IH filling_elapse [where predictor = predictor and d = d and mbs = mbs and lat = lat
           and ps = "submissions evs" and t = "elapsed evs"
           and ts = ts
           and e = "run predictor ((new_engine mbs lat)\<lparr>now := ts\<rparr>) evs"]
      flushed_elapse [where predictor = predictor and d = d and mbs = mbs and lat = lat
           and ps = "submissions evs" and t = "elapsed evs" and rs = rs
           and ts = ts
           and e = "run predictor ((new_engine mbs lat)\<lparr>now := ts\<rparr>) evs"]
    show ?thesis by simp
  next
    case (TimerFire n)
    with IH p(2) filling_timer [where predictor = predictor and n = n and mbs = mbs and lat = lat
           and ps = "submissions evs" and t = "elapsed evs"
           and ts = ts
           and e = "run predictor ((new_engine mbs lat)\<lparr>now := ts\<rparr>) evs"]
      flushed_timer [where predictor = predictor and n = n and mbs = mbs and lat = lat
           and ps = "submissions evs" and t = "elapsed evs" and rs = rs
           and ts = ts
           and e = "run predictor ((new_engine mbs lat)\<lparr>now := ts\<rparr>) evs"]
    show ?thesis by simp
  next
    case Shutdown
    with snoc.prems show ?thesis by simp
  qed
qed

lemma flushed_observations:
  assumes "flushed mbs lat ts ps rs t e" and "length rs = length ps" and "ps \<noteq> []"
  shows "invocations e = [ps]" and "length (history e) = 1" and "pending e = []"
    and "length (delivered e) = length ps"
    and "\<forall>d \<in> set (delivered e). batchId d = 0 \<and> response_code d = 200"
    and "test_batcher_raw_asserts (map gateway_response (delivered e))"
proof -
  from assms(1) have d: "delivered e =
      map (\<lambda>(s, r). \<lparr>sink = s, batchId = 0, result = Inr r\<rparr>) (zip [0..<length ps] rs)"
    by (simp add: flushed_def)
  from assms(1) show "invocations e = [ps]" and "length (history e) = 1"
    by (simp_all add: flushed_def)
  from assms(1) show "pending e = []"
    by (auto simp add: flushed_def pending_def sinks_of_def)
  from d assms(2) show len: "length (delivered e) = length ps" by simp
  from d show all: "\<forall>d \<in> set (delivered e). batchId d = 0 \<and> response_code d = 200"
    by (auto simp add: response_code_def)
  from len assms(3) have ne: "delivered e \<noteq> []" by auto
  from all have s1: "set (map fst (map gateway_response (delivered e))) \<subseteq> {0}"
    by (auto simp add: gateway_response_def)
  from all have s2: "set (map snd (map gateway_response (delivered e))) \<subseteq> {200}"
    by (auto simp add: gateway_response_def)
  from ne have n1: "set (map fst (map gateway_response (delivered e))) \<noteq> {}"
    and n2: "set (map snd (map gateway_response (delivered e))) \<noteq> {}" by simp_all
  from s1 n1 have e1: "set (map fst (map gateway_response (delivered e))) = {0}"
    by (simp only: subset_singleton_iff) simp
  from s2 n2 have e2: "set (map snd (map gateway_response (delivered e))) = {200}"
    by (simp only: subset_singleton_iff) simp
  show "test_batcher_raw_asserts (map gateway_response (delivered e))"
    by (simp only: test_batcher_raw_asserts_def Let_def e1 e2) simp
qed

lemma run_append: "run predictor e (evs @ evs') = run predictor (run predictor e evs) evs'"
  by (simp add: run_def)

lemma idle_run:
  "submissions idle = [] \<Longrightarrow> Shutdown \<notin> set idle \<Longrightarrow>
     run predictor (new_engine mbs lat) idle = (new_engine mbs lat)\<lparr>now := elapsed idle\<rparr>"
proof (induction idle rule: rev_induct)
  case Nil
  show ?case by (simp add: run_def new_engine_def)
next
  case (snoc ev idle)
  then show ?case
    by (cases ev) (simp_all add: timer_fire_def new_engine_def)
qed

text \<open>
  Claim C2. The end-to-end scenario. The engine is configured with \<^verbatim>\<open>max_batch_size = 32\<close>
  and \<^verbatim>\<open>max_latency = 5000\<close>. After any time without requests, 32 payloads are
  submitted while less than 5000 milliseconds pass; timers may fire at any point; and the
  predictor answers the 32 payloads with 32 results. Then exactly one batch is formed and
  dispatched, with all 32 payloads in one call; nothing is left waiting; all 32 responses
  carry the same batch identifier and the status 200; and the two assertions of the test
  hold.
\<close>

theorem flood_of_32_forms_one_batch:
  assumes "evs = idle @ flood" and "submissions idle = []" and "Shutdown \<notin> set evs"
      and "elapsed flood < 5000" and "length (submissions flood) = 32"
      and "predictor (submissions flood) = Inr rs" and "length rs = 32"
      and "e = run predictor (new_engine 32 5000) evs"
  shows "invocations e = [submissions flood] \<and> length (history e) = 1 \<and> pending e = [] \<and>
         length (delivered e) = 32 \<and>
         (\<forall>d \<in> set (delivered e). batchId d = 0 \<and> response_code d = 200) \<and>
         test_batcher_raw_asserts (map gateway_response (delivered e))"
proof -
  from assms(1,3) have ni: "Shutdown \<notin> set idle" and nf: "Shutdown \<notin> set flood" by simp_all
  have e: "e = run predictor ((new_engine 32 5000)\<lparr>now := elapsed idle\<rparr>) flood"
    unfolding assms(8) assms(1) run_append
    by (simp only: idle_run [OF assms(2) ni])
  have fl: "flushed 32 5000 (elapsed idle) (submissions flood) rs (elapsed flood) e"
    using flood_phases [where mbs = 32 and evs = flood and lat = 5000 and predictor = predictor
            and rs = rs and ts = "elapsed idle"] nf assms(4-7)
    unfolding e by simp
  from assms(5) have ne: "submissions flood \<noteq> []" by auto
  from assms(5,7) have len: "length rs = length (submissions flood)" by (simp only:)
  note obs = flushed_observations [OF fl len ne]
  from obs(4) assms(5) have "length (delivered e) = 32" by (simp only:)
  with obs(1,2,3,5,6) show ?thesis by (intro conjI)
qed

lemmas engine_eval = run_def new_engine_def enqueue_def open_batch_def close_batch_def
  dispatch_def fail_all_def timer_fire_def pending_def sinks_of_def current_batch_id_def

lemma example_engine_eq:
  "example_engine =
     \<lparr>max_batch_size = 2, max_latency = 10, now = 10, shutting_down = False,
      current = Some \<lparr>batch_id = 2, items = [], state = OPEN, deadline = 20\<rparr>,
      next_batch_id = 3, next_sink = 3,
      history =
        [\<lparr>batch_id = 0,
          items = [\<lparr>item_payload = 5, resultSink = 0, enqueuedAt = 0\<rparr>,
                   \<lparr>item_payload = 6, resultSink = 1, enqueuedAt = 0\<rparr>],
          state = COMPLETED, deadline = 10\<rparr>,
         \<lparr>batch_id = 1,
          items = [\<lparr>item_payload = 7, resultSink = 2, enqueuedAt = 0\<rparr>],
          state = FAILED, deadline = 10\<rparr>],
      invocations = [[5, 6], [7]],
      delivered =
        [\<lparr>sink = 0, batchId = 0, result = Inr 6\<rparr>,
         \<lparr>sink = 1, batchId = 0, result = Inr 7\<rparr>,
         \<lparr>sink = 2, batchId = 1, result = Inl (InferenceError ''bad input'')\<rparr>]\<rparr>"
  by (simp add: example_engine_def example_events_def flaky_predictor_def engine_eval)

theorem batch_identity_witness:
  "\<lparr>sink = 0, batchId = 0, result = Inr 6\<rparr> \<in> set (delivered example_engine) \<and>
   \<lparr>sink = 2, batchId = 1, result = Inl (InferenceError ''bad input'')\<rparr>
      \<in> set (delivered example_engine) \<and>
   (\<exists>i j. i < length (history example_engine) \<and> j < length (history example_engine) \<and>
      0 \<in> set (sinks_of (history example_engine ! i)) \<and>
      2 \<in> set (sinks_of (history example_engine ! j)) \<and>
      0 = batch_id (history example_engine ! i) \<and>
      1 = batch_id (history example_engine ! j) \<and> i \<noteq> j)"
proof -
  have h1: "\<lparr>sink = 0, batchId = 0, result = Inr 6\<rparr> \<in> set (delivered example_engine)"
    by (simp add: example_engine_eq)
  have h2: "\<lparr>sink = 2, batchId = 1, result = Inl (InferenceError ''bad input'')\<rparr>
              \<in> set (delivered example_engine)"
    by (simp add: example_engine_eq)
  from batch_identity [OF example_engine_def h1 h2] obtain i j where
    "i < length (history example_engine)" "j < length (history example_engine)"
    "0 \<in> set (sinks_of (history example_engine ! i))"
    "2 \<in> set (sinks_of (history example_engine ! j))"
    "0 = batch_id (history example_engine ! i)"
    "1 = batch_id (history example_engine ! j)" "i \<noteq> j"
    by auto
  with h1 h2 show ?thesis by blast
qed

lemma atomic_engine_eq:
  "atomic_engine =
     \<lparr>max_batch_size = 3, max_latency = 10, now = 20, shutting_down = False,
      current = Some \<lparr>batch_id = 3, items = [], state = OPEN, deadline = 30\<rparr>,
      next_batch_id = 4, next_sink = 6,
      history =
        [\<lparr>batch_id = 0,
          items = [\<lparr>item_payload = 5, resultSink = 0, enqueuedAt = 0\<rparr>,
                   \<lparr>item_payload = 6, resultSink = 1, enqueuedAt = 0\<rparr>],
          state = COMPLETED, deadline = 10\<rparr>,
         failed_batch,
         \<lparr>batch_id = 2,
          items = [\<lparr>item_payload = 4, resultSink = 5, enqueuedAt = 10\<rparr>],
          state = COMPLETED, deadline = 20\<rparr>],
      invocations = [[5, 6], [8, 7, 9], [4]],
      delivered =
        [\<lparr>sink = 0, batchId = 0, result = Inr 6\<rparr>,
         \<lparr>sink = 1, batchId = 0, result = Inr 7\<rparr>,
         \<lparr>sink = 2, batchId = 1, result = Inl (InferenceError ''bad input'')\<rparr>,
         \<lparr>sink = 3, batchId = 1, result = Inl (InferenceError ''bad input'')\<rparr>,
         \<lparr>sink = 4, batchId = 1, result = Inl (InferenceError ''bad input'')\<rparr>,
         \<lparr>sink = 5, batchId = 2, result = Inr 5\<rparr>]\<rparr>"
  by (simp add: atomic_engine_def atomic_events_def failed_batch_def flaky_predictor_def
        engine_eval)

theorem batch_fails_atomically_witness:
  "failed_batch \<in> set (history atomic_engine) \<and>
   map item_payload (items failed_batch) = [8, 7, 9] \<and>
   flaky_predictor [8, 7, 9] = Inl ''bad input'' \<and>
   map resultSink (items failed_batch) = [2, 3, 4] \<and>
   (\<exists>d \<in> set (delivered atomic_engine). sink d = 2) \<and>
   (\<exists>d \<in> set (delivered atomic_engine). sink d = 3) \<and>
   (\<exists>d \<in> set (delivered atomic_engine). sink d = 4) \<and>
   list_all (\<lambda>d. sink d \<notin> {2, 3, 4} \<or>
                 batchId d = 1 \<and> result d = Inl (InferenceError ''bad input''))
     (delivered atomic_engine) \<and>
   map result (filter (\<lambda>d. sink d \<in> {2, 3, 4}) (delivered atomic_engine)) =
     [Inl (InferenceError ''bad input''), Inl (InferenceError ''bad input''),
      Inl (InferenceError ''bad input'')]"
proof -
  let ?i8 = "\<lparr>item_payload = 8, resultSink = 2, enqueuedAt = 10\<rparr> :: nat item"
  let ?i7 = "\<lparr>item_payload = 7, resultSink = 3, enqueuedAt = 10\<rparr> :: nat item"
  let ?i9 = "\<lparr>item_payload = 9, resultSink = 4, enqueuedAt = 10\<rparr> :: nat item"
  have h1: "failed_batch \<in> set (history atomic_engine)"
    by (simp add: atomic_engine_eq)
  have p: "map item_payload (items failed_batch) = [8, 7, 9]"
    and sk: "map resultSink (items failed_batch) = [2, 3, 4]"
    by (simp_all add: failed_batch_def)
  have f: "flaky_predictor [8, 7, 9] = Inl ''bad input''"
    by (simp add: flaky_predictor_def)
  from p f have h2: "flaky_predictor (map item_payload (items failed_batch)) = Inl ''bad input''"
    by simp
  have i8: "?i8 \<in> set (items failed_batch)" and i7: "?i7 \<in> set (items failed_batch)"
    and i9: "?i9 \<in> set (items failed_batch)"
    by (simp_all add: failed_batch_def)
  note t8 = batch_fails_atomically [where predictor = flaky_predictor and b = failed_batch
              and it = ?i8, OF atomic_engine_def h1 h2 i8]
  note t7 = batch_fails_atomically [where predictor = flaky_predictor and b = failed_batch
              and it = ?i7, OF atomic_engine_def h1 h2 i7]
  note t9 = batch_fails_atomically [where predictor = flaky_predictor and b = failed_batch
              and it = ?i9, OF atomic_engine_def h1 h2 i9]
  have id: "batch_id failed_batch = 1" by (simp add: failed_batch_def)
  from t8 t7 t9 id have all: "list_all (\<lambda>d. sink d \<notin> {2, 3, 4} \<or>
                 batchId d = 1 \<and> result d = Inl (InferenceError ''bad input''))
     (delivered atomic_engine)"
    by (auto simp add: list_all_iff)
  have ev: "map result (filter (\<lambda>d. sink d \<in> {2, 3, 4}) (delivered atomic_engine)) =
     [Inl (InferenceError ''bad input''), Inl (InferenceError ''bad input''),
      Inl (InferenceError ''bad input'')]"
    by (simp add: atomic_engine_eq)
  from t8 have e8: "\<exists>d \<in> set (delivered atomic_engine). sink d = 2" by simp
  from t7 have e7: "\<exists>d \<in> set (delivered atomic_engine). sink d = 3" by simp
  from t9 have e9: "\<exists>d \<in> set (delivered atomic_engine). sink d = 4" by simp
  from h1 p f sk e8 e7 e9 all ev show ?thesis by blast
qed

theorem exactly_once_delivery_witness:
  "distinct (map sink (delivered example_engine)) \<and>
   list_all (\<lambda>b. length (filter (\<lambda>d. batchId d = batch_id b) (delivered example_engine)) =
                   length (items b))
     (history example_engine) \<and>
   map sink (delivered example_engine) = [0, 1, 2] \<and> pending example_engine = [] \<and>
   next_sink example_engine = 3"
proof -
  note t = exactly_once_delivery [OF example_engine_def refl]
  have "pending example_engine = []" "next_sink example_engine = 3"
    by (simp_all add: example_engine_eq pending_def sinks_of_def)
  with t show ?thesis by (simp add: upt_rec list_all_iff)
qed

theorem flood_of_32_forms_one_batch_witness:
  "submissions idle_events = [] \<and> Shutdown \<notin> set (idle_events @ flood_events) \<and>
   elapsed flood_events < 5000 \<and> length (submissions flood_events) = 32 \<and>
   succ_predictor (submissions flood_events) = Inr (map Suc (submissions flood_events)) \<and>
   invocations (run succ_predictor (new_engine 32 5000) (idle_events @ flood_events)
                  :: (nat, nat) engine) = [submissions flood_events] \<and>
   length (history (run succ_predictor (new_engine 32 5000) (idle_events @ flood_events)
                  :: (nat, nat) engine)) = 1 \<and>
   length (delivered (run succ_predictor (new_engine 32 5000) (idle_events @ flood_events)
                  :: (nat, nat) engine)) = 32 \<and>
   test_batcher_raw_asserts
     (map gateway_response
        (delivered (run succ_predictor (new_engine 32 5000) (idle_events @ flood_events)
                  :: (nat, nat) engine)))"
proof -
  have h0: "submissions idle_events = []"
    by (simp add: idle_events_def submissions_def)
  have h1: "Shutdown \<notin> set (idle_events @ flood_events)"
    by (simp add: idle_events_def flood_events_def)
  have h2: "elapsed flood_events < 5000"
    by (simp add: flood_events_def elapsed_def)
  have h3: "length (submissions flood_events) = 32"
    by (simp add: flood_events_def submissions_def)
  have h4: "succ_predictor (submissions flood_events) = Inr (map Suc (submissions flood_events))"
    by (simp add: succ_predictor_def)
  have h5: "length (map Suc (submissions flood_events)) = 32"
    using h3 by simp
  from flood_of_32_forms_one_batch [where predictor = succ_predictor and idle = idle_events
         and flood = flood_events
         and e = "run succ_predictor (new_engine 32 5000) (idle_events @ flood_events)",
         OF refl h0 h1 h2 h3 h4 h5 refl]
       h0 h1 h2 h3 h4
  show ?thesis by blast
qed

lemma size_bounded_close:
  assumes "size_bounded mbs e" and "0 < mbs"
  shows "size_bounded mbs (close_batch predictor e)"
proof (cases "current e")
  case None
  with assms show ?thesis by (simp add: close_batch_def)
next
  case (Some b)
  obtain finished ds where fd: "dispatch predictor (b\<lparr>state := DISPATCHED\<rparr>) = (finished, ds)"
    by (cases "dispatch predictor (b\<lparr>state := DISPATCHED\<rparr>)")
  then have "items finished = items b"
    using dispatch_fst(2) [of predictor "b\<lparr>state := DISPATCHED\<rparr>"] by simp
  with assms Some fd show ?thesis
    by (auto simp add: size_bounded_def close_batch_def open_batch_def Let_def)
qed

lemma size_bounded_full:
  assumes "size_bounded mbs (e\<lparr>current := None\<rparr>)" and "0 < mbs"
    and "current e = Some b" and "state b = OPEN" and "length (items b) = mbs"
  shows "size_bounded mbs (close_batch predictor e)"
proof -
  obtain finished ds where fd: "dispatch predictor (b\<lparr>state := DISPATCHED\<rparr>) = (finished, ds)"
    by (cases "dispatch predictor (b\<lparr>state := DISPATCHED\<rparr>)")
  then have "items finished = items b"
    using dispatch_fst(2) [of predictor "b\<lparr>state := DISPATCHED\<rparr>"] by simp
  with assms fd show ?thesis
    by (auto simp add: size_bounded_def close_batch_def open_batch_def Let_def)
qed

lemma size_bounded_enqueue:
  assumes "size_bounded mbs e" and "0 < mbs"
  shows "size_bounded mbs (snd (enqueue predictor p e))"
proof (cases "shutting_down e")
  case True
  with assms show ?thesis by (simp add: enqueue_def)
next
  case False
  define e1 where "e1 = (case current e of
                     None \<Rightarrow> open_batch e
                   | Some b \<Rightarrow> if state b = OPEN then e else open_batch e)"
  from assms have s1: "size_bounded mbs e1"
    by (auto simp add: e1_def size_bounded_def open_batch_def split: option.splits)
  have "current e1 \<noteq> None"
    by (auto simp add: e1_def open_batch_def split: option.splits)
  then obtain b where b: "current e1 = Some b" by auto
  with s1 have bo: "state b = OPEN" and bl: "length (items b) < mbs"
    by (simp_all add: size_bounded_def)
  define b' where "b' = b\<lparr>items := items b @ [\<lparr>item_payload = p, resultSink = next_sink e1, enqueuedAt = now e1\<rparr>]\<rparr>"
  define e2 where "e2 = e1\<lparr>current := Some b', next_sink := Suc (next_sink e1)\<rparr>"
  have en: "snd (enqueue predictor p e) =
              (if length (items b') = mbs then close_batch predictor e2 else e2)"
    using False b s1
    by (simp add: enqueue_def Let_def flip: e1_def) (simp add: e2_def b'_def size_bounded_def)
  show ?thesis
  proof (cases "length (items b') = mbs")
    case True
    from s1 have "size_bounded mbs (e2\<lparr>current := None\<rparr>)"
      by (simp add: size_bounded_def e2_def)
    from size_bounded_full [OF this assms(2), of b' predictor] True bo
    show ?thesis by (simp add: en e2_def b'_def)
  next
    case False
    with bl have "length (items b') < mbs" by (simp add: b'_def)
    with s1 bo False show ?thesis
      by (simp add: en size_bounded_def e2_def b'_def)
  qed
qed

lemma size_bounded_step:
  "size_bounded mbs e \<Longrightarrow> 0 < mbs \<Longrightarrow> size_bounded mbs (step predictor e ev)"
  by (cases ev)
     (simp_all add: size_bounded_enqueue size_bounded_close timer_fire_def split: option.splits,
      simp_all add: size_bounded_def)

text \<open>
  With a positive \<^verbatim>\<open>max_batch_size\<close>, no batch of a run ever holds more items than
  that, and the open batch accepts items only while it holds fewer.
\<close>

lemma batch_sizes_bounded:
  assumes "0 < mbs"
  shows "size_bounded mbs (run predictor (new_engine mbs lat) evs)"
proof (induction evs rule: rev_induct)
  case Nil
  from assms show ?case by (simp add: run_def size_bounded_def new_engine_def)
next
  case (snoc ev evs)
  with assms show ?case by (simp add: size_bounded_step)
qed

end
